theory Spec2Isabelle
  imports Main "HOL-Library.Word" "HOL-Library.AList"
begin

unbundle bit_operations_syntax

section \<open>Machine types\<close>

type_synonym u8 = "8 word"
type_synonym u16 = "16 word"
type_synonym u32 = "32 word"
type_synonym u64 = "64 word"

text \<open>\<open>size_t\<close> on the 64-bit targets the server is built for.\<close>

type_synonym size_t = "64 word"

section \<open>Decimal rendering (\<open>std::to_string\<close>)\<close>

function to_string_nat :: "nat \<Rightarrow> string" where
  "to_string_nat n =
     (if n < 10 then [char_of (48 + n)]
      else to_string_nat (n div 10) @ [char_of (48 + n mod 10)])"
  by pat_completeness auto
termination
  by (relation "measure id") auto

definition to_string_int :: "int \<Rightarrow> string" where
  "to_string_int i = (if i < 0 then CHR ''-'' # to_string_nat (nat (- i)) else to_string_nat (nat i))"

section \<open>Query allocator (query\_allocator.hpp)\<close>

record QueryAllocator =
  memory_limit :: size_t
  bytes_used :: size_t

text \<open>\<open>bytes_used_ + size > memory_limit_\<close>, in \<open>size_t\<close> arithmetic.\<close>

definition would_exceed :: "QueryAllocator \<Rightarrow> size_t \<Rightarrow> bool" where
  "would_exceed a sz = (bytes_used a + sz > memory_limit a)"

section \<open>Execution context (context.hpp, context.cpp)\<close>

text \<open>
  Durations are integers: \<open>max_time\<close> counts milliseconds, \<open>elapsed_time\<close> microseconds,
  and readings of the steady clock count nanoseconds.  The clock is not part of the
  context: every function that reads \<open>steady_clock::now()\<close> takes the reading as its
  argument \<open>now\<close>.
\<close>

record QueryBudget =
  max_memory_bytes :: size_t
  max_instructions :: u64
  max_time :: int
  max_result_rows :: size_t

record ExecutionStats =
  instructions_executed :: u64
  rows_scanned :: u64
  rows_returned :: u64
  memory_used :: size_t
  elapsed_time :: int

datatype BudgetViolation =
  NONE | MEMORY_EXCEEDED | INSTRUCTIONS_EXCEEDED | TIMEOUT | ROWS_EXCEEDED | ABORTED

record ExecutionContext =
  budget :: QueryBudget
  allocator :: QueryAllocator
  stats :: ExecutionStats
  start_time :: int
  started :: bool
  aborted :: bool
  violation :: BudgetViolation

text \<open>A thrown \<open>std::runtime_error\<close> carries its \<open>what()\<close> string.\<close>

datatype exn = RuntimeError string

text \<open>
  A function of the context that may throw returns \<open>Inl (e, c)\<close> when it throws \<open>e\<close>
  leaving the context as \<open>c\<close> (the context is mutated before the throw), and
  \<open>Inr c\<close> when it returns.
\<close>

type_synonym ctx_result = "(exn \<times> ExecutionContext) + ExecutionContext"

text \<open>\<open>duration_cast\<close> truncates towards zero.\<close>

definition duration_cast_us :: "int \<Rightarrow> int" where
  "duration_cast_us ns = sgn ns * (\<bar>ns\<bar> div 1000)"

definition trunc_div1000 :: "int \<Rightarrow> int" where
  "trunc_div1000 x = sgn x * (\<bar>x\<bar> div 1000)"

definition violation_message :: "ExecutionContext \<Rightarrow> string" where
  "violation_message c =
     (case violation c of
        NONE \<Rightarrow> ''No violation''
      | MEMORY_EXCEEDED \<Rightarrow>
          ''Memory budget exceeded: '' @ to_string_nat (unat (memory_used (stats c))) @
          '' bytes used, limit is '' @ to_string_nat (unat (max_memory_bytes (budget c)))
      | INSTRUCTIONS_EXCEEDED \<Rightarrow>
          ''Instruction limit exceeded: '' @
          to_string_nat (unat (instructions_executed (stats c))) @
          '' executed, limit is '' @ to_string_nat (unat (max_instructions (budget c)))
      | TIMEOUT \<Rightarrow>
          ''Query timeout after '' @
          to_string_int (trunc_div1000 (elapsed_time (stats c))) @
          ''ms, limit is '' @ to_string_int (max_time (budget c)) @ ''ms''
      | ROWS_EXCEEDED \<Rightarrow>
          ''Row limit exceeded: '' @ to_string_nat (unat (rows_returned (stats c))) @
          '' rows, limit is '' @ to_string_nat (unat (max_result_rows (budget c)))
      | ABORTED \<Rightarrow> ''Query was aborted'')"

definition throw_violation :: "ExecutionContext \<Rightarrow> ctx_result" where
  "throw_violation c = Inl (RuntimeError (violation_message c), c)"

definition start :: "int \<Rightarrow> ExecutionContext \<Rightarrow> ExecutionContext" where
  "start now c = c\<lparr>start_time := now, started := True\<rparr>"

definition record_instructions :: "u64 \<Rightarrow> ExecutionContext \<Rightarrow> ExecutionContext" where
  "record_instructions n c =
     c\<lparr>stats := (stats c)\<lparr>instructions_executed := instructions_executed (stats c) + n\<rparr>\<rparr>"

definition record_row_scanned :: "ExecutionContext \<Rightarrow> ExecutionContext" where
  "record_row_scanned c = c\<lparr>stats := (stats c)\<lparr>rows_scanned := rows_scanned (stats c) + 1\<rparr>\<rparr>"

definition record_row_returned :: "ExecutionContext \<Rightarrow> ExecutionContext" where
  "record_row_returned c = c\<lparr>stats := (stats c)\<lparr>rows_returned := rows_returned (stats c) + 1\<rparr>\<rparr>"

text \<open>
  \<open>elapsed > budget_.max_time\<close>: nanoseconds against milliseconds.  The comparison
  converts the budget to nanoseconds in a 64-bit signed count, where the multiplication by
  1000000 wraps around: from 9223372036855 ms on the budget in nanoseconds is not the
  budget any more (\<open>milliseconds::max()\<close> becomes \<open>-1000000\<close> ns).
\<close>

definition to_nanoseconds :: "int \<Rightarrow> int" where
  "to_nanoseconds ms = signed_take_bit 63 (ms * 1000000)"

definition over_time :: "int \<Rightarrow> ExecutionContext \<Rightarrow> bool" where
  "over_time now c = (now - start_time c > to_nanoseconds (max_time (budget c)))"

definition check_time :: "int \<Rightarrow> ExecutionContext \<Rightarrow> ctx_result" where
  "check_time now c =
     (if \<not> started c then Inr c
      else if over_time now c then
        throw_violation
          (c\<lparr>stats := (stats c)\<lparr>elapsed_time := duration_cast_us (now - start_time c)\<rparr>,
             violation := TIMEOUT\<rparr>)
      else Inr c)"

definition check_instructions :: "ExecutionContext \<Rightarrow> ctx_result" where
  "check_instructions c =
     (if instructions_executed (stats c) \<ge> max_instructions (budget c)
      then throw_violation (c\<lparr>violation := INSTRUCTIONS_EXCEEDED\<rparr>)
      else Inr c)"

definition check_rows :: "ExecutionContext \<Rightarrow> ctx_result" where
  "check_rows c =
     (if rows_returned (stats c) \<ge> max_result_rows (budget c)
      then throw_violation (c\<lparr>violation := ROWS_EXCEEDED\<rparr>)
      else Inr c)"

text \<open>Sequencing of statements that may throw.\<close>

definition and_then :: "ctx_result \<Rightarrow> (ExecutionContext \<Rightarrow> ctx_result) \<Rightarrow> ctx_result" where
  "and_then r f = (case r of Inl e \<Rightarrow> Inl e | Inr c \<Rightarrow> f c)"

definition check_memory :: "ExecutionContext \<Rightarrow> ctx_result" where
  "check_memory c =
     (let c1 = c\<lparr>stats := (stats c)\<lparr>memory_used := bytes_used (allocator c)\<rparr>\<rparr>
      in if would_exceed (allocator c1) 0
         then throw_violation (c1\<lparr>violation := MEMORY_EXCEEDED\<rparr>)
         else Inr c1)"

definition check_budget :: "int \<Rightarrow> ExecutionContext \<Rightarrow> ctx_result" where
  "check_budget now c =
     (if aborted c then throw_violation (c\<lparr>violation := ABORTED\<rparr>)
      else and_then (and_then (and_then (check_time now c) check_instructions) check_rows)
             check_memory)"


definition finalize :: "int \<Rightarrow> ExecutionContext \<Rightarrow> ExecutionContext" where
  "finalize now c =
     (let c1 = (if started c
                then c\<lparr>stats := (stats c)\<lparr>elapsed_time := duration_cast_us (now - start_time c)\<rparr>\<rparr>
                else c)
      in c1\<lparr>stats := (stats c1)\<lparr>memory_used := bytes_used (allocator c1)\<rparr>\<rparr>)"

text \<open>The tag a call signals: the violation recorded when it throws, \<open>NONE\<close> when it returns.\<close>

definition signalled :: "ctx_result \<Rightarrow> BudgetViolation" where
  "signalled r = (case r of Inl (e, c) \<Rightarrow> violation c | Inr c \<Rightarrow> NONE)"

text \<open>
  The order of checks as the specification words it, with the memory test read as
  \<open>used + 0 \<ge> cap\<close>.
\<close>

definition spec_first_violation :: "int \<Rightarrow> ExecutionContext \<Rightarrow> BudgetViolation" where
  "spec_first_violation now c =
     (if aborted c then ABORTED
      else if now - start_time c > max_time (budget c) * 1000000 then TIMEOUT
      else if instructions_executed (stats c) \<ge> max_instructions (budget c)
        then INSTRUCTIONS_EXCEEDED
      else if rows_returned (stats c) \<ge> max_result_rows (budget c) then ROWS_EXCEEDED
      else if bytes_used (allocator c) + 0 \<ge> memory_limit (allocator c) then MEMORY_EXCEEDED
      else NONE)"

text \<open>
  The order of checks as the code has it: the clock is consulted only after \<open>start()\<close>,
  the time budget is compared in 64-bit nanoseconds, and the memory test is
  \<open>would_exceed(0)\<close>, a strict comparison.
\<close>

definition code_first_violation :: "int \<Rightarrow> ExecutionContext \<Rightarrow> BudgetViolation" where
  "code_first_violation now c =
     (if aborted c then ABORTED
      else if started c \<and>
              now - start_time c > signed_take_bit 63 (max_time (budget c) * 1000000)
        then TIMEOUT
      else if instructions_executed (stats c) \<ge> max_instructions (budget c)
        then INSTRUCTIONS_EXCEEDED
      else if rows_returned (stats c) \<ge> max_result_rows (budget c) then ROWS_EXCEEDED
      else if bytes_used (allocator c) > memory_limit (allocator c) then MEMORY_EXCEEDED
      else NONE)"

text \<open>A context in which only the memory counter has reached its cap, exactly.\<close>

definition ctx_at_memory_cap :: ExecutionContext where
  "ctx_at_memory_cap =
     \<lparr>budget = \<lparr>max_memory_bytes = 100, max_instructions = 1000, max_time = 30000,
                max_result_rows = 10\<rparr>,
      allocator = \<lparr>memory_limit = 100, bytes_used = 100\<rparr>,
      stats = \<lparr>instructions_executed = 0, rows_scanned = 0, rows_returned = 0,
               memory_used = 0, elapsed_time = 0\<rparr>,
      start_time = 0, started = True, aborted = False, violation = NONE\<rparr>"

lemma signalled_throw [simp]: "signalled (throw_violation c) = violation c"
  by (simp add: signalled_def throw_violation_def)

lemma signalled_Inr [simp]: "signalled (Inr c) = NONE"
  by (simp add: signalled_def)

lemma and_then_throw [simp]: "and_then (throw_violation c) f = throw_violation c"
  by (simp add: and_then_def throw_violation_def)

lemma and_then_Inr [simp]: "and_then (Inr c) f = f c"
  by (simp add: and_then_def)

lemma to_nanoseconds_small:
  "0 \<le> ms \<Longrightarrow> ms \<le> 9223372036854 \<Longrightarrow> to_nanoseconds ms = ms * 1000000"
  unfolding to_nanoseconds_def
  by (rule signed_take_bit_int_eq_self) simp_all

lemma to_nanoseconds_30000 [simp]: "to_nanoseconds 30000 = 30000000000"
  by (simp add: to_nanoseconds_small)

lemma to_nanoseconds_max: "to_nanoseconds 9223372036854775807 = - 1000000"
  by (simp add: to_nanoseconds_def signed_take_bit_eq_take_bit_minus take_bit_eq_mod
      bit_iff_odd)

lemma check_time_wraps:
  "signalled (check_time now
     (c\<lparr>started := True, start_time := now, budget := (budget c)\<lparr>max_time := 9223372036854775807\<rparr>\<rparr>)) =
   TIMEOUT"
  by (simp add: check_time_def over_time_def to_nanoseconds_max signalled_def
      throw_violation_def)

text \<open>
  C6 (as amended).  \<open>check_budget\<close> signals the first violation in the order
  aborted, timeout (only once started; elapsed nanoseconds against the budget converted
  to 64-bit nanoseconds), instructions \<open>\<ge>\<close> cap, returned rows \<open>\<ge>\<close> cap, allocator
  bytes used \<open>>\<close> cap; it signals nothing when none of these holds.
\<close>

theorem check_budget_order:
  "signalled (check_budget now c) = code_first_violation now c"
  by (auto simp: check_budget_def code_first_violation_def check_time_def over_time_def
      to_nanoseconds_def check_instructions_def check_rows_def check_memory_def
      would_exceed_def Let_def)

text \<open>
  C6 (as stated) fails: with the allocator's \<open>bytes_used\<close> equal to the cap exactly and
  no other budget exhausted, the specification's order gives \<open>MEMORY_EXCEEDED\<close>, but
  \<open>check_budget\<close> returns without signalling.
\<close>

theorem check_budget_memory_cap_counterexample:
  "bytes_used (allocator ctx_at_memory_cap) = max_memory_bytes (budget ctx_at_memory_cap) \<and>
   spec_first_violation 5 ctx_at_memory_cap = MEMORY_EXCEEDED \<and>
   signalled (check_budget 5 ctx_at_memory_cap) = NONE"
  by (simp add: check_budget_def spec_first_violation_def check_time_def
      check_instructions_def check_rows_def check_memory_def would_exceed_def Let_def
      over_time_def ctx_at_memory_cap_def)

section \<open>Reader-writer lock (rw\_lock.hpp, rw\_lock.cpp)\<close>

record RWLock =
  readers :: int
  writer :: bool
  waiting_writers :: int

text \<open>
  The blocking calls wait on a condition variable.  A call returns only from a state in
  which its wait predicate holds; \<open>None\<close> stands for a call that does not return from the
  given state (it stays blocked until another thread changes the lock).
\<close>

definition lock_read :: "RWLock \<Rightarrow> RWLock option" where
  "lock_read l =
     (if \<not> writer l \<and> waiting_writers l = 0 then Some (l\<lparr>readers := readers l + 1\<rparr>)
      else None)"

definition unlock_read :: "RWLock \<Rightarrow> RWLock" where
  "unlock_read l = l\<lparr>readers := readers l - 1\<rparr>"

definition lock_write :: "RWLock \<Rightarrow> RWLock option" where
  "lock_write l =
     (let l1 = l\<lparr>waiting_writers := waiting_writers l + 1\<rparr>
      in if readers l1 = 0 \<and> \<not> writer l1
         then Some (l1\<lparr>waiting_writers := waiting_writers l1 - 1, writer := True\<rparr>)
         else None)"

definition unlock_write :: "RWLock \<Rightarrow> RWLock" where
  "unlock_write l = l\<lparr>writer := False\<rparr>"

text \<open>\<open>owns\<close>: whether \<open>std::try_to_lock\<close> obtained the mutex.\<close>

definition try_lock_write :: "bool \<Rightarrow> RWLock \<Rightarrow> bool \<times> RWLock" where
  "try_lock_write owns l =
     (if \<not> owns then (False, l)
      else if readers l > 0 \<or> writer l then (False, l)
      else (True, l\<lparr>writer := True\<rparr>))"

section \<open>Transactions (transaction.hpp, transaction.cpp)\<close>

datatype TransactionState = TS_ACTIVE | TS_COMMITTED | TS_ABORTED

record Transaction =
  txn_id :: u64
  txn_read_only :: bool
  txn_state :: TransactionState
  txn_start_time :: int

record TransactionManager =
  lock :: RWLock
  next_id :: u64
  active_count :: u64

definition new_Transaction :: "int \<Rightarrow> u64 \<Rightarrow> bool \<Rightarrow> Transaction" where
  "new_Transaction now i ro =
     \<lparr>txn_id = i, txn_read_only = ro, txn_state = TS_ACTIVE, txn_start_time = now\<rparr>"

definition txn_commit :: "Transaction \<Rightarrow> Transaction" where
  "txn_commit t = t\<lparr>txn_state := TS_COMMITTED\<rparr>"

definition txn_abort :: "Transaction \<Rightarrow> Transaction" where
  "txn_abort t = t\<lparr>txn_state := TS_ABORTED\<rparr>"

text \<open>
  A handle is a \<open>std::unique_ptr<Transaction>\<close>: \<open>None\<close> is the null pointer, \<open>Some t\<close>
  owns the transaction \<open>t\<close>.
\<close>

definition begin_read :: "int \<Rightarrow> TransactionManager \<Rightarrow> (Transaction option \<times> TransactionManager) option" where
  "begin_read now m =
     (case lock_read (lock m) of
        None \<Rightarrow> None
      | Some l \<Rightarrow>
          Some (Some (new_Transaction now (next_id m) True),
                m\<lparr>lock := l, next_id := next_id m + 1, active_count := active_count m + 1\<rparr>))"

definition begin_write :: "int \<Rightarrow> TransactionManager \<Rightarrow> (Transaction option \<times> TransactionManager) option" where
  "begin_write now m =
     (case lock_write (lock m) of
        None \<Rightarrow> None
      | Some l \<Rightarrow>
          Some (Some (new_Transaction now (next_id m) False),
                m\<lparr>lock := l, next_id := next_id m + 1, active_count := active_count m + 1\<rparr>))"

definition try_begin_write :: "bool \<Rightarrow> int \<Rightarrow> TransactionManager \<Rightarrow> (Transaction option \<times> TransactionManager) option" where
  "try_begin_write owns now m =
     (case try_lock_write owns (lock m) of
        (False, l) \<Rightarrow> Some (None, m\<lparr>lock := l\<rparr>)
      | (True, l) \<Rightarrow>
          Some (Some (new_Transaction now (next_id m) False),
                m\<lparr>lock := l, next_id := next_id m + 1, active_count := active_count m + 1\<rparr>))"

definition end_transaction :: "Transaction \<Rightarrow> TransactionManager \<Rightarrow> TransactionManager" where
  "end_transaction t m =
     (let m1 = m\<lparr>active_count := active_count m - 1\<rparr>
      in if txn_read_only t then m1\<lparr>lock := unlock_read (lock m1)\<rparr>
         else m1\<lparr>lock := unlock_write (lock m1)\<rparr>)"

definition manager_commit :: "Transaction \<Rightarrow> TransactionManager \<Rightarrow> Transaction \<times> TransactionManager" where
  "manager_commit t m = (let t1 = txn_commit t in (t1, end_transaction t1 m))"

definition manager_abort :: "Transaction \<Rightarrow> TransactionManager \<Rightarrow> Transaction \<times> TransactionManager" where
  "manager_abort t m = (let t1 = txn_abort t in (t1, end_transaction t1 m))"

text \<open>
  Destroying a bare handle: \<open>Transaction\<close> declares no destructor, so releasing the
  \<open>unique_ptr\<close> frees the object and runs no code of the coordinator.
\<close>

definition handle_destroy :: "Transaction option \<Rightarrow> TransactionManager \<Rightarrow> TransactionManager" where
  "handle_destroy h m = m"

text \<open>
  \<open>TransactionGuard\<close> wraps a handle.  Its operations return the transaction as the
  guard leaves it together with the coordinator.
\<close>

definition guard_abort :: "Transaction option \<Rightarrow> TransactionManager \<Rightarrow> Transaction option \<times> TransactionManager" where
  "guard_abort g m =
     (case g of None \<Rightarrow> (None, m)
      | Some t \<Rightarrow> (let (t1, m1) = manager_abort t m in (Some t1, m1)))"

definition guard_commit :: "Transaction option \<Rightarrow> TransactionManager \<Rightarrow> Transaction option \<times> TransactionManager" where
  "guard_commit g m =
     (case g of None \<Rightarrow> (None, m)
      | Some t \<Rightarrow> (let (t1, m1) = manager_commit t m in (Some t1, m1)))"

definition guard_destroy :: "Transaction option \<Rightarrow> TransactionManager \<Rightarrow> Transaction option \<times> TransactionManager" where
  "guard_destroy g m =
     (case g of
        Some t \<Rightarrow> (if txn_state t = TS_ACTIVE then guard_abort g m else (g, m))
      | None \<Rightarrow> (g, m))"

definition fresh_manager :: TransactionManager where
  "fresh_manager =
     \<lparr>lock = \<lparr>readers = 0, writer = False, waiting_writers = 0\<rparr>, next_id = 1,
      active_count = 0\<rparr>"

text \<open>A coordinator with two readers and a writer waiting for them.\<close>

definition busy_manager :: TransactionManager where
  "busy_manager =
     \<lparr>lock = \<lparr>readers = 2, writer = False, waiting_writers = 1\<rparr>, next_id = 3,
      active_count = 2\<rparr>"

text \<open>
  C9 (as amended).  A handle returned by \<open>begin_read\<close>, \<open>begin_write\<close> or
  \<open>try_begin_write\<close> is Active.  When a handle is wrapped in a \<open>TransactionGuard\<close>,
  destroying the guard while the transaction is Active aborts it, whatever the state of
  the coordinator is by then: the state becomes Aborted, the active count is decremented,
  and the lock is released (a reader leaves, a writer gives the write lock up).  Destroyed
  right after the begin, the guard leaves the coordinator as it was before, but for the id
  counter.  A guard whose transaction is not Active any more does nothing.
\<close>

theorem guard_destroy_aborts:
  "(txn_state t = TS_ACTIVE \<longrightarrow>
      guard_destroy (Some t) mm =
        (Some (t\<lparr>txn_state := TS_ABORTED\<rparr>),
         mm\<lparr>active_count := active_count mm - 1,
            lock := (if txn_read_only t then (lock mm)\<lparr>readers := readers (lock mm) - 1\<rparr>
                     else (lock mm)\<lparr>writer := False\<rparr>)\<rparr>)) \<and>
   (txn_state t \<noteq> TS_ACTIVE \<longrightarrow> guard_destroy (Some t) mm = (Some t, mm)) \<and>
   (begin_read now m = Some (Some t, m') \<or> begin_write now m = Some (Some t, m') \<or>
    try_begin_write owns now m = Some (Some t, m') \<longrightarrow>
      txn_state t = TS_ACTIVE \<and>
      guard_destroy (Some t) m' =
        (Some (t\<lparr>txn_state := TS_ABORTED\<rparr>), m\<lparr>next_id := next_id m + 1\<rparr>))"
proof (intro conjI impI)
  assume "txn_state t = TS_ACTIVE"
  then show "guard_destroy (Some t) mm =
        (Some (t\<lparr>txn_state := TS_ABORTED\<rparr>),
         mm\<lparr>active_count := active_count mm - 1,
            lock := (if txn_read_only t then (lock mm)\<lparr>readers := readers (lock mm) - 1\<rparr>
                     else (lock mm)\<lparr>writer := False\<rparr>)\<rparr>)"
    by (simp add: guard_destroy_def guard_abort_def manager_abort_def txn_abort_def
        end_transaction_def unlock_read_def unlock_write_def Let_def)
next
  assume "txn_state t \<noteq> TS_ACTIVE"
  then show "guard_destroy (Some t) mm = (Some t, mm)"
    by (simp add: guard_destroy_def)
next
  assume b: "begin_read now m = Some (Some t, m') \<or> begin_write now m = Some (Some t, m') \<or>
    try_begin_write owns now m = Some (Some t, m')"
  then show "txn_state t = TS_ACTIVE"
    by (auto simp: begin_read_def begin_write_def try_begin_write_def new_Transaction_def
        split: option.splits if_splits prod.splits bool.splits)
  from b show "guard_destroy (Some t) m' =
        (Some (t\<lparr>txn_state := TS_ABORTED\<rparr>), m\<lparr>next_id := next_id m + 1\<rparr>)"
    by (auto simp: begin_read_def begin_write_def try_begin_write_def lock_read_def
        lock_write_def try_lock_write_def guard_destroy_def guard_abort_def manager_abort_def
        txn_abort_def end_transaction_def unlock_read_def unlock_write_def new_Transaction_def
        Let_def split: option.splits if_splits)
qed

theorem guard_destroy_aborts_witness:
  "txn_state (new_Transaction 7 1 True) = TS_ACTIVE \<and>
   guard_destroy (Some (new_Transaction 7 1 True)) busy_manager =
     (Some ((new_Transaction 7 1 True)\<lparr>txn_state := TS_ABORTED\<rparr>),
      busy_manager\<lparr>active_count := 1,
        lock := \<lparr>readers = 1, writer = False, waiting_writers = 1\<rparr>\<rparr>) \<and>
   txn_state (txn_commit (new_Transaction 7 1 True)) \<noteq> TS_ACTIVE \<and>
   guard_destroy (Some (txn_commit (new_Transaction 7 1 True))) busy_manager =
     (Some (txn_commit (new_Transaction 7 1 True)), busy_manager) \<and>
   begin_write 7 fresh_manager =
     Some (Some (new_Transaction 7 1 False),
           fresh_manager\<lparr>lock := \<lparr>readers = 0, writer = True, waiting_writers = 0\<rparr>,
             next_id := 2, active_count := 1\<rparr>) \<and>
   guard_destroy (Some (new_Transaction 7 1 False))
     (fresh_manager\<lparr>lock := \<lparr>readers = 0, writer = True, waiting_writers = 0\<rparr>,
             next_id := 2, active_count := 1\<rparr>) =
     (Some ((new_Transaction 7 1 False)\<lparr>txn_state := TS_ABORTED\<rparr>),
      fresh_manager\<lparr>next_id := next_id fresh_manager + 1\<rparr>)"
proof -
  have a: "txn_state (new_Transaction 7 1 True) = TS_ACTIVE"
    by (simp add: new_Transaction_def)
  have c: "txn_state (txn_commit (new_Transaction 7 1 True)) \<noteq> TS_ACTIVE"
    by (simp add: txn_commit_def)
  have b: "begin_write 7 fresh_manager =
     Some (Some (new_Transaction 7 1 False),
           fresh_manager\<lparr>lock := \<lparr>readers = 0, writer = True, waiting_writers = 0\<rparr>,
             next_id := 2, active_count := 1\<rparr>)"
    by (simp add: begin_write_def lock_write_def fresh_manager_def Let_def)
  note g = guard_destroy_aborts [of "new_Transaction 7 1 True" busy_manager]
  note h = guard_destroy_aborts [of "txn_commit (new_Transaction 7 1 True)" busy_manager]
  note k = guard_destroy_aborts [of "new_Transaction 7 1 False" _ 7 fresh_manager
      "fresh_manager\<lparr>lock := \<lparr>readers = 0, writer = True, waiting_writers = 0\<rparr>,
             next_id := 2, active_count := 1\<rparr>" True]
  from g a have 1: "guard_destroy (Some (new_Transaction 7 1 True)) busy_manager =
     (Some ((new_Transaction 7 1 True)\<lparr>txn_state := TS_ABORTED\<rparr>),
      busy_manager\<lparr>active_count := 1,
        lock := \<lparr>readers = 1, writer = False, waiting_writers = 1\<rparr>\<rparr>)"
    by (simp add: busy_manager_def new_Transaction_def)
  from h c have 2: "guard_destroy (Some (txn_commit (new_Transaction 7 1 True))) busy_manager =
     (Some (txn_commit (new_Transaction 7 1 True)), busy_manager)"
    by blast
  from k b have 3: "guard_destroy (Some (new_Transaction 7 1 False))
     (fresh_manager\<lparr>lock := \<lparr>readers = 0, writer = True, waiting_writers = 0\<rparr>,
             next_id := 2, active_count := 1\<rparr>) =
     (Some ((new_Transaction 7 1 False)\<lparr>txn_state := TS_ABORTED\<rparr>),
      fresh_manager\<lparr>next_id := next_id fresh_manager + 1\<rparr>)"
    by blast
  from a 1 c 2 b 3 show ?thesis by blast
qed

text \<open>
  C9 (as stated) fails: the handle \<open>begin_write\<close> returns is a bare
  \<open>unique_ptr<Transaction>\<close>; destroying it while Active leaves the coordinator
  unchanged, with the write lock still held and the transaction still counted active.
\<close>

theorem handle_drop_counterexample:
  "begin_write 7 fresh_manager =
     Some (Some (new_Transaction 7 1 False),
           fresh_manager\<lparr>lock := \<lparr>readers = 0, writer = True, waiting_writers = 0\<rparr>,
             next_id := 2, active_count := 1\<rparr>) \<and>
   txn_state (new_Transaction 7 1 False) = TS_ACTIVE \<and>
   writer (lock (handle_destroy (Some (new_Transaction 7 1 False))
     (fresh_manager\<lparr>lock := \<lparr>readers = 0, writer = True, waiting_writers = 0\<rparr>,
             next_id := 2, active_count := 1\<rparr>))) \<and>
   active_count (handle_destroy (Some (new_Transaction 7 1 False))
     (fresh_manager\<lparr>lock := \<lparr>readers = 0, writer = True, waiting_writers = 0\<rparr>,
             next_id := 2, active_count := 1\<rparr>)) = 1"
  by (simp add: begin_write_def lock_write_def fresh_manager_def Let_def handle_destroy_def
      new_Transaction_def)

section \<open>Bytes in memory\<close>

text \<open>\<open>load_bytes d off n\<close>: the \<open>n\<close> bytes at offset \<open>off\<close>; \<open>store_bytes d off s\<close>:
  \<open>memcpy(d + off, s, |s|)\<close> as far as the array \<open>d\<close> is concerned: the bytes that
  fall behind the end of \<open>d\<close> land in memory that is not \<open>d\<close>'s, and \<open>d\<close> keeps its
  size.\<close>

definition load_bytes :: "u8 list \<Rightarrow> nat \<Rightarrow> nat \<Rightarrow> u8 list" where
  "load_bytes d off n = take n (drop off d)"

definition store_bytes :: "u8 list \<Rightarrow> nat \<Rightarrow> u8 list \<Rightarrow> u8 list" where
  "store_bytes d off s = take (length d) (take off d @ s @ drop (off + length s) d)"

text \<open>Little-endian integers of \<open>k\<close> bytes.\<close>

fun le_enc :: "nat \<Rightarrow> int \<Rightarrow> u8 list" where
  "le_enc 0 n = []"
| "le_enc (Suc k) n = of_int n # le_enc k (n div 256)"

fun le_dec :: "u8 list \<Rightarrow> int" where
  "le_dec [] = 0"
| "le_dec (b # bs) = uint b + 256 * le_dec bs"

definition rd :: "nat \<Rightarrow> u8 list \<Rightarrow> nat \<Rightarrow> int" where
  "rd k d off = le_dec (load_bytes d off k)"

definition wr :: "nat \<Rightarrow> u8 list \<Rightarrow> nat \<Rightarrow> int \<Rightarrow> u8 list" where
  "wr k d off v = store_bytes d off (le_enc k v)"

lemma length_le_enc [simp]: "length (le_enc k n) = k"
  by (induction k arbitrary: n) auto

lemma le_dec_enc: "le_dec (le_enc k n) = n mod 256 ^ k"
proof (induction k arbitrary: n)
  case 0
  then show ?case by simp
next
  case (Suc k)
  have "uint (of_int n :: u8) = n mod 256"
    by (simp add: uint_word_of_int)
  then show ?case
    using Suc [of "n div 256"] by (simp add: zmod_zmult2_eq)
qed

lemma le_dec_bound: "0 \<le> le_dec bs \<and> le_dec bs < 256 ^ length bs"
proof (induction bs)
  case Nil
  then show ?case by simp
next
  case (Cons b bs)
  have "uint b < 256" "0 \<le> uint b" using uint_lt2p [of b] by simp_all
  with Cons show ?case by simp
qed

lemma store_bytes_inside:
  "off + length s \<le> length d \<Longrightarrow>
   store_bytes d off s = take off d @ s @ drop (off + length s) d"
  by (simp add: store_bytes_def)

lemma store_bytes_behind: "length d \<le> off \<Longrightarrow> store_bytes d off s = d"
  by (simp add: store_bytes_def)

lemma length_store_bytes [simp]: "length (store_bytes d off s) = length d"
  by (auto simp: store_bytes_def min_def)

lemma length_load_bytes [simp]:
  "off + n \<le> length d \<Longrightarrow> length (load_bytes d off n) = n"
  by (simp add: load_bytes_def)

lemma load_store_same:
  "off + length s \<le> length d \<Longrightarrow> load_bytes (store_bytes d off s) off (length s) = s"
  by (simp add: load_bytes_def store_bytes_inside)

lemma load_store_prefix:
  "off + length s \<le> length d \<Longrightarrow> n \<le> length s \<Longrightarrow>
   load_bytes (store_bytes d off s) off n = take n s"
  by (simp add: load_bytes_def store_bytes_inside)

lemma load_store_other:
  assumes "off + length s \<le> length d" "off' + n \<le> off \<or> off + length s \<le> off'"
  shows "load_bytes (store_bytes d off s) off' n = load_bytes d off' n"
proof -
  have "take n (drop off' (take off d @ s @ drop (off + length s) d)) = take n (drop off' d)"
  proof (rule nth_equalityI)
    show "length (take n (drop off' (take off d @ s @ drop (off + length s) d))) =
          length (take n (drop off' d))"
      using assms by auto
  next
    fix i assume "i < length (take n (drop off' (take off d @ s @ drop (off + length s) d)))"
    then have i: "i < n" "off' + i < length d" using assms by auto
    show "take n (drop off' (take off d @ s @ drop (off + length s) d)) ! i =
          take n (drop off' d) ! i"
      using i assms by (auto simp: nth_append)
  qed
  then show ?thesis by (simp add: load_bytes_def store_bytes_inside assms(1))
qed

text \<open>Fields of 2, 4 and 8 bytes.\<close>

definition rd16 :: "u8 list \<Rightarrow> nat \<Rightarrow> u16" where "rd16 d off = of_int (rd 2 d off)"
definition rd32 :: "u8 list \<Rightarrow> nat \<Rightarrow> u32" where "rd32 d off = of_int (rd 4 d off)"
definition rd64 :: "u8 list \<Rightarrow> nat \<Rightarrow> u64" where "rd64 d off = of_int (rd 8 d off)"

definition wr16 :: "u8 list \<Rightarrow> nat \<Rightarrow> u16 \<Rightarrow> u8 list" where "wr16 d off v = wr 2 d off (uint v)"
definition wr32 :: "u8 list \<Rightarrow> nat \<Rightarrow> u32 \<Rightarrow> u8 list" where "wr32 d off v = wr 4 d off (uint v)"
definition wr64 :: "u8 list \<Rightarrow> nat \<Rightarrow> u64 \<Rightarrow> u8 list" where "wr64 d off v = wr 8 d off (uint v)"

lemma length_wr [simp]: "length (wr k d off v) = length d"
  by (simp add: wr_def)

lemma rd_wr_same: "off + k \<le> length d \<Longrightarrow> rd k (wr k d off v) off = v mod 256 ^ k"
  using load_store_same [of off "le_enc k v" d] by (simp add: rd_def wr_def le_dec_enc)

lemma rd_wr_other:
  "off + k \<le> length d \<Longrightarrow> off' + k' \<le> off \<or> off + k \<le> off' \<Longrightarrow>
   rd k' (wr k d off v) off' = rd k' d off'"
  using load_store_other [of off "le_enc k v" d off' k'] by (simp add: rd_def wr_def)

lemma rd_store_other:
  "off + length s \<le> length d \<Longrightarrow> off' + k' \<le> off \<or> off + length s \<le> off' \<Longrightarrow>
   rd k' (store_bytes d off s) off' = rd k' d off'"
  using load_store_other [of off s d off' k'] by (simp add: rd_def)

lemma load_wr_other:
  "off + k \<le> length d \<Longrightarrow> off' + n \<le> off \<or> off + k \<le> off' \<Longrightarrow>
   load_bytes (wr k d off v) off' n = load_bytes d off' n"
  using load_store_other [of off "le_enc k v" d off' n] by (simp add: wr_def)

lemma rd16_wr16_same [simp]: "off + 2 \<le> length d \<Longrightarrow> rd16 (wr16 d off v) off = v"
proof -
  assume "off + 2 \<le> length d"
  then have "rd 2 (wr 2 d off (uint v)) off = uint v mod 256 ^ 2"
    by (rule rd_wr_same)
  moreover have "uint v mod 256 ^ 2 = uint v"
    using uint_lt2p [of v] by simp
  ultimately show ?thesis by (simp add: rd16_def wr16_def)
qed

lemma rd32_wr32_same [simp]: "off + 4 \<le> length d \<Longrightarrow> rd32 (wr32 d off v) off = v"
proof -
  assume "off + 4 \<le> length d"
  then have "rd 4 (wr 4 d off (uint v)) off = uint v mod 256 ^ 4"
    by (rule rd_wr_same)
  moreover have "uint v mod 256 ^ 4 = uint v"
    using uint_lt2p [of v] by simp
  ultimately show ?thesis by (simp add: rd32_def wr32_def)
qed

lemma rd64_wr64_same [simp]: "off + 8 \<le> length d \<Longrightarrow> rd64 (wr64 d off v) off = v"
proof -
  assume "off + 8 \<le> length d"
  then have "rd 8 (wr 8 d off (uint v)) off = uint v mod 256 ^ 8"
    by (rule rd_wr_same)
  moreover have "uint v mod 256 ^ 8 = uint v"
    using uint_lt2p [of v] by simp
  ultimately show ?thesis by (simp add: rd64_def wr64_def)
qed

lemma length_wr16 [simp]: "length (wr16 d off v) = length d"
  by (simp add: wr16_def)

lemma length_wr32 [simp]: "length (wr32 d off v) = length d"
  by (simp add: wr32_def)

lemma length_wr64 [simp]: "length (wr64 d off v) = length d"
  by (simp add: wr64_def)

lemma rd16_wr16_other [simp]:
  "off + 2 \<le> length d \<Longrightarrow> off' + 2 \<le> off \<or> off + 2 \<le> off' \<Longrightarrow>
   rd16 (wr16 d off v) off' = rd16 d off'"
  by (simp add: rd16_def wr16_def rd_wr_other)

lemma rd16_wr32_other [simp]:
  "off + 4 \<le> length d \<Longrightarrow> off' + 2 \<le> off \<or> off + 4 \<le> off' \<Longrightarrow>
   rd16 (wr32 d off v) off' = rd16 d off'"
  by (simp add: rd16_def wr32_def rd_wr_other)

lemma rd16_wr64_other [simp]:
  "off + 8 \<le> length d \<Longrightarrow> off' + 2 \<le> off \<or> off + 8 \<le> off' \<Longrightarrow>
   rd16 (wr64 d off v) off' = rd16 d off'"
  by (simp add: rd16_def wr64_def rd_wr_other)

lemma rd32_wr16_other [simp]:
  "off + 2 \<le> length d \<Longrightarrow> off' + 4 \<le> off \<or> off + 2 \<le> off' \<Longrightarrow>
   rd32 (wr16 d off v) off' = rd32 d off'"
  by (simp add: rd32_def wr16_def rd_wr_other)

lemma rd32_wr32_other [simp]:
  "off + 4 \<le> length d \<Longrightarrow> off' + 4 \<le> off \<or> off + 4 \<le> off' \<Longrightarrow>
   rd32 (wr32 d off v) off' = rd32 d off'"
  by (simp add: rd32_def wr32_def rd_wr_other)

lemma rd32_wr64_other [simp]:
  "off + 8 \<le> length d \<Longrightarrow> off' + 4 \<le> off \<or> off + 8 \<le> off' \<Longrightarrow>
   rd32 (wr64 d off v) off' = rd32 d off'"
  by (simp add: rd32_def wr64_def rd_wr_other)

lemma rd64_wr16_other [simp]:
  "off + 2 \<le> length d \<Longrightarrow> off' + 8 \<le> off \<or> off + 2 \<le> off' \<Longrightarrow>
   rd64 (wr16 d off v) off' = rd64 d off'"
  by (simp add: rd64_def wr16_def rd_wr_other)

lemma rd64_wr32_other [simp]:
  "off + 4 \<le> length d \<Longrightarrow> off' + 8 \<le> off \<or> off + 4 \<le> off' \<Longrightarrow>
   rd64 (wr32 d off v) off' = rd64 d off'"
  by (simp add: rd64_def wr32_def rd_wr_other)

lemma rd16_store_other [simp]:
  "off + length s \<le> length d \<Longrightarrow> off' + 2 \<le> off \<or> off + length s \<le> off' \<Longrightarrow>
   rd16 (store_bytes d off s) off' = rd16 d off'"
  by (simp add: rd16_def rd_store_other)

lemma rd32_store_other [simp]:
  "off + length s \<le> length d \<Longrightarrow> off' + 4 \<le> off \<or> off + length s \<le> off' \<Longrightarrow>
   rd32 (store_bytes d off s) off' = rd32 d off'"
  by (simp add: rd32_def rd_store_other)

lemma rd64_store_other [simp]:
  "off + length s \<le> length d \<Longrightarrow> off' + 8 \<le> off \<or> off + length s \<le> off' \<Longrightarrow>
   rd64 (store_bytes d off s) off' = rd64 d off'"
  by (simp add: rd64_def rd_store_other)

lemma load_wr16_other [simp]:
  "off + 2 \<le> length d \<Longrightarrow> off' + n \<le> off \<or> off + 2 \<le> off' \<Longrightarrow>
   load_bytes (wr16 d off v) off' n = load_bytes d off' n"
  by (simp add: wr16_def load_wr_other)

lemma load_wr32_other [simp]:
  "off + 4 \<le> length d \<Longrightarrow> off' + n \<le> off \<or> off + 4 \<le> off' \<Longrightarrow>
   load_bytes (wr32 d off v) off' n = load_bytes d off' n"
  by (simp add: wr32_def load_wr_other)

lemma load_wr64_other [simp]:
  "off + 8 \<le> length d \<Longrightarrow> off' + n \<le> off \<or> off + 8 \<le> off' \<Longrightarrow>
   load_bytes (wr64 d off v) off' n = load_bytes d off' n"
  by (simp add: wr64_def load_wr_other)

section \<open>Slotted page (page.hpp, page\_manager.cpp)\<close>

definition PAGE_SIZE :: nat where "PAGE_SIZE = 8192"
definition PAGE_MAGIC :: u32 where "PAGE_MAGIC = 0x45444247"

text \<open>\<open>sizeof(PageHeader)\<close> and \<open>sizeof(SlotEntry)\<close>, as the static assertions fix them.\<close>

definition HEADER_SIZE :: nat where "HEADER_SIZE = 24"
definition SLOT_SIZE :: nat where "SLOT_SIZE = 4"

definition FLAG_LEAF :: u16 where "FLAG_LEAF = 1"
definition FLAG_DIRTY :: u16 where "FLAG_DIRTY = 8"

text \<open>
  A page is its \<open>PAGE_SIZE\<close> bytes; the header and the slot directory are read through
  \<open>reinterpret_cast\<close> at fixed offsets of the same array (little-endian fields:
  magic 0, page\_id 4, lsn 8, slot\_count 16, free\_space 18, data\_start 20, flags 22).
\<close>

type_synonym Page = "u8 list"

definition page_magic :: "Page \<Rightarrow> u32" where "page_magic p = rd32 p 0"
definition page_id_of :: "Page \<Rightarrow> u32" where "page_id_of p = rd32 p 4"
definition page_lsn :: "Page \<Rightarrow> u64" where "page_lsn p = rd64 p 8"
definition slot_count :: "Page \<Rightarrow> u16" where "slot_count p = rd16 p 16"
definition free_space :: "Page \<Rightarrow> u16" where "free_space p = rd16 p 18"
definition data_start :: "Page \<Rightarrow> u16" where "data_start p = rd16 p 20"
definition page_flags :: "Page \<Rightarrow> u16" where "page_flags p = rd16 p 22"

definition set_magic :: "Page \<Rightarrow> u32 \<Rightarrow> Page" where "set_magic p v = wr32 p 0 v"
definition set_page_id :: "Page \<Rightarrow> u32 \<Rightarrow> Page" where "set_page_id p v = wr32 p 4 v"
definition set_lsn :: "Page \<Rightarrow> u64 \<Rightarrow> Page" where "set_lsn p v = wr64 p 8 v"
definition set_slot_count :: "Page \<Rightarrow> u16 \<Rightarrow> Page" where "set_slot_count p v = wr16 p 16 v"
definition set_free_space :: "Page \<Rightarrow> u16 \<Rightarrow> Page" where "set_free_space p v = wr16 p 18 v"
definition set_data_start :: "Page \<Rightarrow> u16 \<Rightarrow> Page" where "set_data_start p v = wr16 p 20 v"
definition set_flags :: "Page \<Rightarrow> u16 \<Rightarrow> Page" where "set_flags p v = wr16 p 22 v"

definition is_valid :: "Page \<Rightarrow> bool" where
  "is_valid p = (page_magic p = PAGE_MAGIC)"

definition is_dirty :: "Page \<Rightarrow> bool" where
  "is_dirty p = (page_flags p AND FLAG_DIRTY \<noteq> 0)"

definition set_dirty :: "Page \<Rightarrow> bool \<Rightarrow> Page" where
  "set_dirty p dirty =
     (if dirty then set_flags p (page_flags p OR FLAG_DIRTY)
      else set_flags p (page_flags p AND NOT FLAG_DIRTY))"

definition page_init :: "u32 \<Rightarrow> u16 \<Rightarrow> Page" where
  "page_init pid fl =
     (let p0 = replicate PAGE_SIZE 0;
          p1 = set_magic p0 PAGE_MAGIC;
          p2 = set_page_id p1 pid;
          p3 = set_lsn p2 0;
          p4 = set_slot_count p3 0;
          p5 = set_free_space p4 (of_nat (PAGE_SIZE - HEADER_SIZE));
          p6 = set_data_start p5 (of_nat PAGE_SIZE)
      in set_flags p6 fl)"

text \<open>Slot entries: \<open>offset\<close> at the entry's address, \<open>length\<close> two bytes further.\<close>

definition slot_ptr :: "u16 \<Rightarrow> nat" where
  "slot_ptr i = HEADER_SIZE + unat i * SLOT_SIZE"

definition get_slot :: "Page \<Rightarrow> u16 \<Rightarrow> nat option" where
  "get_slot p i = (if i \<ge> slot_count p then None else Some (slot_ptr i))"

definition slot_offset :: "Page \<Rightarrow> nat \<Rightarrow> u16" where
  "slot_offset p ptr = rd16 p ptr"

definition slot_length :: "Page \<Rightarrow> nat \<Rightarrow> u16" where
  "slot_length p ptr = rd16 p (ptr + 2)"

definition set_slot_offset :: "Page \<Rightarrow> nat \<Rightarrow> u16 \<Rightarrow> Page" where
  "set_slot_offset p ptr v = wr16 p ptr v"

definition set_slot_length :: "Page \<Rightarrow> nat \<Rightarrow> u16 \<Rightarrow> Page" where
  "set_slot_length p ptr v = wr16 p (ptr + 2) v"

definition is_empty :: "Page \<Rightarrow> nat \<Rightarrow> bool" where
  "is_empty p ptr = (slot_offset p ptr = 0 \<and> slot_length p ptr = 0)"

definition is_deleted :: "Page \<Rightarrow> nat \<Rightarrow> bool" where
  "is_deleted p ptr = (slot_offset p ptr = 0xFFFF)"

definition mark_deleted :: "Page \<Rightarrow> nat \<Rightarrow> Page" where
  "mark_deleted p ptr = set_slot_length (set_slot_offset p ptr 0xFFFF) ptr 0"

definition slot_directory_end :: "Page \<Rightarrow> u16" where
  "slot_directory_end p = of_nat (HEADER_SIZE + unat (slot_count p) * SLOT_SIZE)"

text \<open>
  The page operations return \<open>false\<close> for a request they refuse (\<open>BadSlot\<close>, \<open>NoSpace\<close>,
  \<open>DirectoryOverlap\<close>, \<open>TooLong\<close>).  \<open>OutOfBounds\<close> marks a read whose value the source
  leaves undefined: of a slot entry behind the end of the page's array, or of more bytes
  than the caller's buffer holds.  No operation tests where it writes: a write behind the
  end of the array does not reach the page (\<open>store_bytes\<close>), and the operation goes on.
\<close>

datatype page_error = BadSlot | NoSpace | DirectoryOverlap | TooLong | OutOfBounds

definition in_page :: "nat \<Rightarrow> nat \<Rightarrow> bool" where
  "in_page off n = (off + n \<le> PAGE_SIZE)"

text \<open>\<open>get_record\<close> yields the address (as an offset into the page) and the length.\<close>

definition get_record :: "Page \<Rightarrow> u16 \<Rightarrow> page_error + (nat \<times> u16)" where
  "get_record p i =
     (case get_slot p i of
        None \<Rightarrow> Inl BadSlot
      | Some ptr \<Rightarrow>
          if \<not> in_page ptr SLOT_SIZE then Inl OutOfBounds
          else if is_empty p ptr \<or> is_deleted p ptr then Inl BadSlot
          else Inr (unat (slot_offset p ptr), slot_length p ptr))"

text \<open>What a caller reads through the pointer and length \<open>get_record\<close> hands out.\<close>

definition read_record :: "Page \<Rightarrow> u16 \<Rightarrow> page_error + u8 list" where
  "read_record p i =
     (case get_record p i of
        Inl e \<Rightarrow> Inl e
      | Inr (off, len) \<Rightarrow>
          if in_page off (unat len) then Inr (load_bytes p off (unat len)) else Inl OutOfBounds)"

definition insert_record :: "Page \<Rightarrow> u8 list \<Rightarrow> u16 \<Rightarrow> page_error + (Page \<times> u16)" where
  "insert_record p data len =
     (let required_space = len + of_nat SLOT_SIZE in
      if free_space p < required_space then Inl NoSpace
      else
        let record_offset = data_start p - len;
            slot_dir_end = slot_directory_end p + of_nat SLOT_SIZE
        in
        if record_offset < slot_dir_end then Inl DirectoryOverlap
        else if \<not> unat len \<le> length data then Inl OutOfBounds
        else
          let p1 = store_bytes p (unat record_offset) (take (unat len) data);
              slot_index = slot_count p1;
              ptr = slot_ptr slot_index;
              p2 = set_slot_length (set_slot_offset p1 ptr record_offset) ptr len;
              p3 = set_slot_count p2 (slot_count p2 + 1);
              p4 = set_data_start p3 record_offset;
              p5 = set_free_space p4 (free_space p4 - required_space);
              p6 = set_dirty p5 True
          in Inr (p6, slot_index))"

definition delete_record :: "Page \<Rightarrow> u16 \<Rightarrow> page_error + Page" where
  "delete_record p i =
     (case get_slot p i of
        None \<Rightarrow> Inl BadSlot
      | Some ptr \<Rightarrow>
          if \<not> in_page ptr SLOT_SIZE then Inl OutOfBounds
          else if is_empty p ptr \<or> is_deleted p ptr then Inl BadSlot
          else Inr (set_dirty (mark_deleted p ptr) True))"

definition update_record :: "Page \<Rightarrow> u16 \<Rightarrow> u8 list \<Rightarrow> u16 \<Rightarrow> page_error + Page" where
  "update_record p i data len =
     (case get_slot p i of
        None \<Rightarrow> Inl BadSlot
      | Some ptr \<Rightarrow>
          if \<not> in_page ptr SLOT_SIZE then Inl OutOfBounds
          else if is_empty p ptr \<or> is_deleted p ptr then Inl BadSlot
          else if len > slot_length p ptr then Inl TooLong
          else if \<not> unat len \<le> length data then Inl OutOfBounds
          else
            let p1 = store_bytes p (unat (slot_offset p ptr)) (take (unat len) data);
                p2 = set_slot_length p1 ptr len
            in Inr (set_dirty p2 True))"

text \<open>
  The relation between a page and the list of slot contents it holds: \<open>sl ! i\<close> is
  \<open>None\<close> for a deleted slot and \<open>Some d\<close> for a live record with bytes \<open>d\<close>;
  \<open>tot\<close> is the number of bytes the record region has consumed.
\<close>

definition slot_rel :: "Page \<Rightarrow> nat \<Rightarrow> u8 list option \<Rightarrow> bool" where
  "slot_rel p ptr v =
     (case v of
        None \<Rightarrow> slot_offset p ptr = 0xFFFF \<and> slot_length p ptr = 0
      | Some d \<Rightarrow>
          unat (data_start p) \<le> unat (slot_offset p ptr) \<and>
          unat (slot_offset p ptr) + length d \<le> PAGE_SIZE \<and>
          unat (slot_length p ptr) = length d \<and>
          load_bytes p (unat (slot_offset p ptr)) (length d) = d)"

definition slots_ordered :: "Page \<Rightarrow> nat \<Rightarrow> bool" where
  "slots_ordered p n =
     (\<forall>i j. i < j \<longrightarrow> j < n \<longrightarrow>
        slot_offset p (HEADER_SIZE + i * SLOT_SIZE) \<noteq> 0xFFFF \<longrightarrow>
        slot_offset p (HEADER_SIZE + j * SLOT_SIZE) \<noteq> 0xFFFF \<longrightarrow>
        unat (slot_offset p (HEADER_SIZE + j * SLOT_SIZE)) +
        unat (slot_length p (HEADER_SIZE + j * SLOT_SIZE)) \<le>
        unat (slot_offset p (HEADER_SIZE + i * SLOT_SIZE)))"

definition page_rel :: "Page \<Rightarrow> u8 list option list \<Rightarrow> nat \<Rightarrow> bool" where
  "page_rel p sl tot =
     (length p = PAGE_SIZE \<and>
      unat (slot_count p) = length sl \<and>
      unat (data_start p) + tot = PAGE_SIZE \<and>
      HEADER_SIZE + SLOT_SIZE * length sl + unat (free_space p) = unat (data_start p) \<and>
      (\<forall>i<length sl. slot_rel p (HEADER_SIZE + i * SLOT_SIZE) (sl ! i)) \<and>
      slots_ordered p (length sl))"

lemmas hdr_defs = page_magic_def page_id_of_def page_lsn_def slot_count_def free_space_def
  data_start_def page_flags_def set_magic_def set_page_id_def set_lsn_def set_slot_count_def
  set_free_space_def set_data_start_def set_flags_def set_dirty_def
  slot_offset_def slot_length_def set_slot_offset_def set_slot_length_def

lemmas size_defs = PAGE_SIZE_def HEADER_SIZE_def SLOT_SIZE_def

lemma length_page_init [simp]: "length (page_init pid fl) = PAGE_SIZE"
  by (simp add: page_init_def Let_def hdr_defs size_defs)

lemma page_init_fields:
  "slot_count (page_init pid fl) = 0"
  "free_space (page_init pid fl) = 8168"
  "data_start (page_init pid fl) = 8192"
  "page_flags (page_init pid fl) = fl"
  "page_lsn (page_init pid fl) = 0"
  "page_id_of (page_init pid fl) = pid"
  "page_magic (page_init pid fl) = PAGE_MAGIC"
  by (simp_all add: page_init_def Let_def hdr_defs size_defs)

lemma page_rel_init: "page_rel (page_init pid fl) [] 0"
  by (simp add: page_rel_def page_init_fields slots_ordered_def size_defs)

lemma insert_record_effect:
  assumes len: "length p = PAGE_SIZE"
    and sc: "unat (slot_count p) = n"
    and gap: "HEADER_SIZE + SLOT_SIZE * n + unat (free_space p) = unat (data_start p)"
    and ds: "unat (data_start p) \<le> PAGE_SIZE"
    and nw: "unat len + SLOT_SIZE < 65536"
    and ins: "insert_record p data len = Inr (p', s)"
  shows "unat len + SLOT_SIZE \<le> unat (free_space p)"
    and "unat len \<le> length data"
    and "s = slot_count p"
    and "length p' = PAGE_SIZE"
    and "unat (slot_count p') = n + 1"
    and "unat (data_start p') = unat (data_start p) - unat len"
    and "unat (free_space p') = unat (free_space p) - (unat len + SLOT_SIZE)"
    and "slot_offset p' (HEADER_SIZE + n * SLOT_SIZE) = data_start p'"
    and "slot_length p' (HEADER_SIZE + n * SLOT_SIZE) = len"
    and "load_bytes p' (unat (data_start p')) (unat len) = take (unat len) data"
    and "\<And>off. HEADER_SIZE \<le> off \<Longrightarrow> off + 2 \<le> HEADER_SIZE + n * SLOT_SIZE \<Longrightarrow>
           rd16 p' off = rd16 p off"
    and "\<And>off m. unat (data_start p) \<le> off \<Longrightarrow> off + m \<le> PAGE_SIZE \<Longrightarrow>
           load_bytes p' off m = load_bytes p off m"
    and "page_lsn p' = page_lsn p"
    and "page_magic p' = page_magic p"
    and "page_id_of p' = page_id_of p"
proof -
  define L where "L = unat len"
  define D where "D = unat (data_start p)"
  define F where "F = unat (free_space p)"
  define ro where "ro = data_start p - len"
  have n_bound0: "24 + 4 * n \<le> 8192"
    using gap ds by (simp add: size_defs)
  have sde: "unat (slot_directory_end p + of_nat SLOT_SIZE) = 28 + 4 * n"
    using n_bound0 sc by (simp add: slot_directory_end_def size_defs unat_word_ariths unat_of_nat)
  from ins have c0: "\<not> free_space p < len + of_nat SLOT_SIZE"
    and c1: "\<not> ro < slot_directory_end p + of_nat SLOT_SIZE"
    and c2: "L \<le> length data"
    by (auto simp: insert_record_def Let_def ro_def L_def split: if_splits)
  have Lb: "L < 65536" using unsigned_less [of len, where ?'a = nat] by (simp add: L_def)
  have req: "unat (len + of_nat SLOT_SIZE) = L + 4"
    using nw by (simp add: L_def size_defs unat_word_ariths)
  from c0 req have LF0: "L + 4 \<le> F"
    by (simp add: word_less_nat_alt F_def)
  have LD: "L \<le> D"
    using LF0 gap by (simp add: size_defs D_def F_def)
  then have ro: "unat ro = D - L"
    by (simp add: ro_def D_def L_def unat_sub_if')
  from c1 sde ro have room: "28 + 4 * n \<le> D - L"
    by (simp add: word_less_nat_alt)
  have n_bound: "28 + 4 * n \<le> 8192"
    using room ds by (simp add: size_defs D_def)
  have room': "28 + 4 * n + L \<le> D" "unat ro + L = D" "D \<le> 8192"
    using room ro LD ds by (simp_all add: size_defs D_def)
  from room gap LD show fsok: "unat len + SLOT_SIZE \<le> unat (free_space p)"
    by (simp add: size_defs D_def L_def)
  from fsok have LF: "L + 4 \<le> F" by (simp add: L_def F_def size_defs)
  from c2 show "unat len \<le> length data" by (simp add: L_def)
  define p1 where "p1 = store_bytes p (unat ro) (take L data)"
  have lt: "length (take L data) = L" using c2 by simp
  have len1: "length p1 = 8192"
    using len ro room ds LD lt by (simp add: p1_def size_defs D_def)
  have sc1: "slot_count p1 = slot_count p"
    using len ro room ds LD lt by (simp add: p1_def slot_count_def size_defs D_def)
  have ptr: "slot_ptr (slot_count p1) = 24 + n * 4"
    using sc by (simp add: slot_ptr_def sc1 size_defs)
  define p2 where "p2 = set_slot_length (set_slot_offset p1 (24 + n * 4) ro) (24 + n * 4) len"
  define p3 where "p3 = set_slot_count p2 (slot_count p2 + 1)"
  define p4 where "p4 = set_data_start p3 ro"
  define p5 where "p5 = set_free_space p4 (free_space p4 - (len + of_nat SLOT_SIZE))"
  from ins c1 c2 have res: "p' = set_dirty p5 True \<and> s = slot_count p1"
    using n_bound
    by (auto simp: insert_record_def Let_def ro_def [symmetric] L_def [symmetric]
        p1_def [symmetric] ptr p2_def p3_def p4_def p5_def size_defs
        split: if_splits)
  then show "s = slot_count p" by (simp add: sc1)
  have len2: "length p2 = 8192" using len1 n_bound by (simp add: p2_def hdr_defs)
  have len3: "length p3 = 8192" using len2 by (simp add: p3_def hdr_defs)
  have len4: "length p4 = 8192" using len3 by (simp add: p4_def hdr_defs)
  have len5: "length p5 = 8192" using len4 by (simp add: p5_def hdr_defs)
  show len': "length p' = PAGE_SIZE" using len5 res by (simp add: hdr_defs size_defs)
  have sc2: "slot_count p2 = slot_count p"
    using len1 n_bound sc1 by (simp add: p2_def hdr_defs)
  have "slot_count p' = slot_count p + 1"
    using res len2 len3 len4 len5 sc2 by (simp add: p3_def p4_def p5_def hdr_defs)
  then show "unat (slot_count p') = n + 1"
    using sc n_bound by (simp add: unat_word_ariths)
  have ds': "data_start p' = ro"
    using res len2 len3 len4 len5 by (simp add: p4_def p5_def hdr_defs)
  then show "unat (data_start p') = unat (data_start p) - unat len"
    using ro by (simp add: D_def L_def)
  have fs4: "free_space p4 = free_space p"
    using len len1 len2 len3 n_bound ro room ds LD lt
    by (simp add: p4_def p3_def p2_def p1_def hdr_defs size_defs D_def)
  have "free_space p' = free_space p - (len + 4)"
    using res len4 len5 fs4 by (simp add: p5_def hdr_defs size_defs)
  moreover have "unat (len + 4) = L + 4"
    using Lb LF ds gap by (simp add: L_def F_def unat_word_ariths size_defs)
  then have "unat (free_space p - (len + 4)) = F - (L + 4)"
    using LF by (simp add: unat_sub_if' F_def)
  ultimately show "unat (free_space p') = unat (free_space p) - (unat len + SLOT_SIZE)"
    by (simp add: F_def L_def size_defs)
  show "slot_offset p' (HEADER_SIZE + n * SLOT_SIZE) = data_start p'"
    using res len1 len2 len3 len4 len5 n_bound ds'
    by (simp add: p5_def p4_def p3_def p2_def hdr_defs size_defs)
  show "slot_length p' (HEADER_SIZE + n * SLOT_SIZE) = len"
    using res len1 len2 len3 len4 len5 n_bound
    by (simp add: p5_def p4_def p3_def p2_def hdr_defs size_defs)
  have "load_bytes p' (unat ro) L = load_bytes p1 (unat ro) L"
    using res len1 len2 len3 len4 len5 n_bound ro room
    by (simp add: p5_def p4_def p3_def p2_def hdr_defs size_defs)
  also have "\<dots> = take L data"
    using load_store_same [of "unat ro" "take L data" p] len ro ds LD lt
    by (simp add: p1_def size_defs D_def)
  finally show "load_bytes p' (unat (data_start p')) (unat len) = take (unat len) data"
    by (simp add: ds' L_def)
  show "rd16 p' off = rd16 p off"
    if "HEADER_SIZE \<le> off" "off + 2 \<le> HEADER_SIZE + n * SLOT_SIZE" for off
    using that res len len1 len2 len3 len4 len5 n_bound ro room ds LD lt
    by (simp add: p5_def p4_def p3_def p2_def p1_def hdr_defs size_defs D_def)
  show "load_bytes p' off m = load_bytes p off m"
    if "unat (data_start p) \<le> off" "off + m \<le> PAGE_SIZE" for off m
  proof -
    have off: "D \<le> off" "off + m \<le> 8192"
      using that by (simp_all add: D_def size_defs)
    have "load_bytes p' off m = load_bytes p1 off m"
      using off res len1 n_bound room'
      by (simp add: p5_def p4_def p3_def p2_def hdr_defs)
    also have "\<dots> = load_bytes p off m"
      using load_store_other [of "unat ro" "take L data" p off m] off len room' lt
      by (simp add: p1_def size_defs)
    finally show ?thesis .
  qed
  show "page_lsn p' = page_lsn p"
    using res len len1 len2 len3 len4 len5 n_bound ro room ds LD lt
    by (simp add: p5_def p4_def p3_def p2_def p1_def hdr_defs size_defs D_def)
  show "page_magic p' = page_magic p"
    using res len len1 len2 len3 len4 len5 n_bound ro room ds LD lt
    by (simp add: p5_def p4_def p3_def p2_def p1_def hdr_defs size_defs D_def)
  show "page_id_of p' = page_id_of p"
    using res len len1 len2 len3 len4 len5 n_bound ro room ds LD lt
    by (simp add: p5_def p4_def p3_def p2_def p1_def hdr_defs size_defs D_def)
qed

lemma get_slot_Some:
  "get_slot p i = Some ptr \<longleftrightarrow> unat i < unat (slot_count p) \<and> ptr = HEADER_SIZE + unat i * SLOT_SIZE"
  by (auto simp: get_slot_def slot_ptr_def word_le_nat_alt)

lemma get_slot_None: "get_slot p i = None \<longleftrightarrow> unat (slot_count p) \<le> unat i"
  by (auto simp: get_slot_def word_le_nat_alt)

lemma delete_record_effect:
  assumes len: "length p = PAGE_SIZE"
    and sc: "unat (slot_count p) = n"
    and nb: "HEADER_SIZE + SLOT_SIZE * n \<le> PAGE_SIZE"
    and del: "delete_record p i = Inr p'"
  shows "unat i < n"
    and "slot_offset p (HEADER_SIZE + unat i * SLOT_SIZE) \<noteq> 0xFFFF"
    and "length p' = PAGE_SIZE"
    and "slot_count p' = slot_count p"
    and "data_start p' = data_start p"
    and "free_space p' = free_space p"
    and "page_lsn p' = page_lsn p"
    and "page_magic p' = page_magic p"
    and "page_id_of p' = page_id_of p"
    and "slot_offset p' (HEADER_SIZE + unat i * SLOT_SIZE) = 0xFFFF"
    and "slot_length p' (HEADER_SIZE + unat i * SLOT_SIZE) = 0"
    and "\<And>off. HEADER_SIZE \<le> off \<Longrightarrow> off + 2 \<le> PAGE_SIZE \<Longrightarrow>
           off + 2 \<le> HEADER_SIZE + unat i * SLOT_SIZE \<or>
           HEADER_SIZE + unat i * SLOT_SIZE + SLOT_SIZE \<le> off \<Longrightarrow>
           rd16 p' off = rd16 p off"
    and "\<And>off m. HEADER_SIZE + SLOT_SIZE * n \<le> off \<Longrightarrow> off + m \<le> PAGE_SIZE \<Longrightarrow>
           load_bytes p' off m = load_bytes p off m"
proof -
  define ptr where "ptr = 24 + unat i * 4"
  from del have i: "unat i < n" and live: "\<not> is_deleted p ptr"
    and res: "p' = set_dirty (mark_deleted p ptr) True"
    using sc
    by (auto simp: delete_record_def get_slot_Some ptr_def size_defs
        split: option.splits if_splits)
  have pb: "ptr + 4 \<le> 8192" "ptr + 4 \<le> 24 + 4 * n"
    using i nb by (simp_all add: ptr_def size_defs)
  show "unat i < n" by (rule i)
  show "slot_offset p (HEADER_SIZE + unat i * SLOT_SIZE) \<noteq> 0xFFFF"
    using live by (simp add: is_deleted_def ptr_def size_defs)
  have l8: "length p = 8192" using len by (simp add: size_defs)
  show "length p' = PAGE_SIZE"
    using res l8 pb by (simp add: mark_deleted_def hdr_defs size_defs)
  show "slot_count p' = slot_count p"
    using res l8 pb by (simp add: mark_deleted_def hdr_defs ptr_def)
  show "data_start p' = data_start p"
    using res l8 pb by (simp add: mark_deleted_def hdr_defs ptr_def)
  show "free_space p' = free_space p"
    using res l8 pb by (simp add: mark_deleted_def hdr_defs ptr_def)
  show "page_lsn p' = page_lsn p"
    using res l8 pb by (simp add: mark_deleted_def hdr_defs ptr_def)
  show "page_magic p' = page_magic p"
    using res l8 pb by (simp add: mark_deleted_def hdr_defs ptr_def)
  show "page_id_of p' = page_id_of p"
    using res l8 pb by (simp add: mark_deleted_def hdr_defs ptr_def)
  show "slot_offset p' (HEADER_SIZE + unat i * SLOT_SIZE) = 0xFFFF"
    using res l8 pb by (simp add: mark_deleted_def hdr_defs ptr_def size_defs)
  show "slot_length p' (HEADER_SIZE + unat i * SLOT_SIZE) = 0"
    using res l8 pb by (simp add: mark_deleted_def hdr_defs ptr_def size_defs)
  show "rd16 p' off = rd16 p off"
    if "HEADER_SIZE \<le> off" "off + 2 \<le> PAGE_SIZE"
      "off + 2 \<le> HEADER_SIZE + unat i * SLOT_SIZE \<or>
       HEADER_SIZE + unat i * SLOT_SIZE + SLOT_SIZE \<le> off" for off
    using that res l8 pb by (auto simp: mark_deleted_def hdr_defs ptr_def size_defs)
  show "load_bytes p' off m = load_bytes p off m"
    if "HEADER_SIZE + SLOT_SIZE * n \<le> off" "off + m \<le> PAGE_SIZE" for off m
    using that res l8 pb by (simp add: mark_deleted_def hdr_defs ptr_def size_defs)
qed

lemma update_record_effect:
  assumes len: "length p = PAGE_SIZE"
    and sc: "unat (slot_count p) = n"
    and nb: "HEADER_SIZE + SLOT_SIZE * n \<le> PAGE_SIZE"
    and lo: "unat i < n \<Longrightarrow> slot_offset p (HEADER_SIZE + unat i * SLOT_SIZE) \<noteq> 0xFFFF \<Longrightarrow>
             HEADER_SIZE + SLOT_SIZE * n \<le> unat (slot_offset p (HEADER_SIZE + unat i * SLOT_SIZE)) \<and>
             unat (slot_offset p (HEADER_SIZE + unat i * SLOT_SIZE)) +
             unat (slot_length p (HEADER_SIZE + unat i * SLOT_SIZE)) \<le> PAGE_SIZE"
    and upd: "update_record p i data len = Inr p'"
  shows "unat i < n"
    and "slot_offset p (HEADER_SIZE + unat i * SLOT_SIZE) \<noteq> 0xFFFF"
    and "unat len \<le> unat (slot_length p (HEADER_SIZE + unat i * SLOT_SIZE))"
    and "unat len \<le> length data"
    and "length p' = PAGE_SIZE"
    and "slot_count p' = slot_count p"
    and "data_start p' = data_start p"
    and "free_space p' = free_space p"
    and "page_lsn p' = page_lsn p"
    and "page_magic p' = page_magic p"
    and "page_id_of p' = page_id_of p"
    and "slot_offset p' (HEADER_SIZE + unat i * SLOT_SIZE) =
         slot_offset p (HEADER_SIZE + unat i * SLOT_SIZE)"
    and "slot_length p' (HEADER_SIZE + unat i * SLOT_SIZE) = len"
    and "load_bytes p' (unat (slot_offset p (HEADER_SIZE + unat i * SLOT_SIZE))) (unat len) =
         take (unat len) data"
    and "\<And>off. HEADER_SIZE \<le> off \<Longrightarrow> off + 2 \<le> HEADER_SIZE + SLOT_SIZE * n \<Longrightarrow>
           off + 2 \<le> HEADER_SIZE + unat i * SLOT_SIZE + 2 \<or>
           HEADER_SIZE + unat i * SLOT_SIZE + SLOT_SIZE \<le> off \<Longrightarrow>
           rd16 p' off = rd16 p off"
    and "\<And>off m. HEADER_SIZE + SLOT_SIZE * n \<le> off \<Longrightarrow> off + m \<le> PAGE_SIZE \<Longrightarrow>
           off + m \<le> unat (slot_offset p (HEADER_SIZE + unat i * SLOT_SIZE)) \<or>
           unat (slot_offset p (HEADER_SIZE + unat i * SLOT_SIZE)) + unat len \<le> off \<Longrightarrow>
           load_bytes p' off m = load_bytes p off m"
proof -
  define ptr where "ptr = 24 + unat i * 4"
  define so where "so = unat (slot_offset p ptr)"
  define L where "L = unat len"
  define p1 where "p1 = store_bytes p so (take L data)"
  from upd have i: "unat i < n" and live: "\<not> is_deleted p ptr"
    and fit: "\<not> len > slot_length p ptr" and c2: "L \<le> length data"
    and res: "p' = set_dirty (set_slot_length p1 ptr len) True"
    using sc
    by (auto simp: update_record_def get_slot_Some ptr_def size_defs Let_def so_def L_def
        p1_def split: option.splits if_splits)
  have pb: "ptr + 4 \<le> 8192" "ptr + 4 \<le> 24 + 4 * n" "24 \<le> ptr"
    using i nb by (simp_all add: ptr_def size_defs)
  show "unat i < n" by (rule i)
  show lv: "slot_offset p (HEADER_SIZE + unat i * SLOT_SIZE) \<noteq> 0xFFFF"
    using live by (simp add: is_deleted_def ptr_def size_defs)
  show fit': "unat len \<le> unat (slot_length p (HEADER_SIZE + unat i * SLOT_SIZE))"
    using fit by (simp add: ptr_def size_defs word_less_nat_alt not_less)
  show "unat len \<le> length data" using c2 by (simp add: L_def)
  from lo [OF i lv] fit' have sb: "24 + 4 * n \<le> so" "so + L \<le> 8192"
    by (simp_all add: so_def ptr_def L_def size_defs)
  have l8: "length p = 8192" using len by (simp add: size_defs)
  have lt: "length (take L data) = L" using c2 by simp
  have l1: "length p1 = 8192" using l8 sb lt by (simp add: p1_def)
  show "length p' = PAGE_SIZE"
    using res l1 pb by (simp add: hdr_defs size_defs)
  show "slot_count p' = slot_count p"
    using res l1 l8 pb sb lt by (simp add: hdr_defs p1_def)
  show "data_start p' = data_start p"
    using res l1 l8 pb sb lt by (simp add: hdr_defs p1_def)
  show "free_space p' = free_space p"
    using res l1 l8 pb sb lt by (simp add: hdr_defs p1_def)
  show "page_lsn p' = page_lsn p"
    using res l1 l8 pb sb lt by (simp add: hdr_defs p1_def)
  show "page_magic p' = page_magic p"
    using res l1 l8 pb sb lt by (simp add: hdr_defs p1_def)
  show "page_id_of p' = page_id_of p"
    using res l1 l8 pb sb lt by (simp add: hdr_defs p1_def)
  show "slot_offset p' (HEADER_SIZE + unat i * SLOT_SIZE) =
         slot_offset p (HEADER_SIZE + unat i * SLOT_SIZE)"
    using res l1 l8 pb sb lt by (simp add: hdr_defs p1_def ptr_def size_defs)
  show "slot_length p' (HEADER_SIZE + unat i * SLOT_SIZE) = len"
    using res l1 l8 pb sb lt by (simp add: hdr_defs p1_def ptr_def size_defs)
  have "load_bytes p' so L = load_bytes p1 so L"
    using res l1 pb sb by (simp add: hdr_defs)
  also have "\<dots> = take L data"
    using load_store_same [of so "take L data" p] l8 sb lt by (simp add: p1_def)
  finally show "load_bytes p' (unat (slot_offset p (HEADER_SIZE + unat i * SLOT_SIZE))) (unat len) =
         take (unat len) data"
    by (simp add: so_def ptr_def L_def size_defs)
  show "rd16 p' off = rd16 p off"
    if "HEADER_SIZE \<le> off" "off + 2 \<le> HEADER_SIZE + SLOT_SIZE * n"
      "off + 2 \<le> HEADER_SIZE + unat i * SLOT_SIZE + 2 \<or>
       HEADER_SIZE + unat i * SLOT_SIZE + SLOT_SIZE \<le> off" for off
    using that res l1 l8 pb sb lt by (auto simp: hdr_defs p1_def ptr_def size_defs)
  show "load_bytes p' off m = load_bytes p off m"
    if "HEADER_SIZE + SLOT_SIZE * n \<le> off" "off + m \<le> PAGE_SIZE"
      "off + m \<le> unat (slot_offset p (HEADER_SIZE + unat i * SLOT_SIZE)) \<or>
       unat (slot_offset p (HEADER_SIZE + unat i * SLOT_SIZE)) + unat len \<le> off" for off m
  proof -
    have off: "24 + 4 * n \<le> off" "off + m \<le> 8192" "off + m \<le> so \<or> so + L \<le> off"
      using that by (simp_all add: size_defs so_def ptr_def L_def)
    have "load_bytes p' off m = load_bytes p1 off m"
      using off res l1 pb by (simp add: hdr_defs)
    also have "\<dots> = load_bytes p off m"
      using load_store_other [of so "take L data" p off m] off l8 sb lt
      by (simp add: p1_def)
    finally show ?thesis .
  qed
qed

text \<open>
  Sequences of page operations, and what the specification expects of them: the slot
  contents after the sequence (\<open>None\<close> for a deleted slot), the bytes ever inserted,
  and the bytes of the live records.
\<close>

datatype page_op =
  InsertRecord "u8 list" u16 | UpdateRecord u16 "u8 list" u16 | DeleteRecord u16

definition apply_op :: "Page \<Rightarrow> page_op \<Rightarrow> page_error + Page" where
  "apply_op p x =
     (case x of
        InsertRecord d l \<Rightarrow> (case insert_record p d l of Inl e \<Rightarrow> Inl e | Inr (p', s) \<Rightarrow> Inr p')
      | UpdateRecord i d l \<Rightarrow> update_record p i d l
      | DeleteRecord i \<Rightarrow> delete_record p i)"

fun run_ops :: "Page \<Rightarrow> page_op list \<Rightarrow> page_error + Page" where
  "run_ops p [] = Inr p"
| "run_ops p (x # xs) = (case apply_op p x of Inl e \<Rightarrow> Inl e | Inr p' \<Rightarrow> run_ops p' xs)"

definition spec_step :: "u8 list option list \<Rightarrow> page_op \<Rightarrow> u8 list option list" where
  "spec_step sl x =
     (case x of
        InsertRecord d l \<Rightarrow> sl @ [Some (take (unat l) d)]
      | UpdateRecord i d l \<Rightarrow> sl[unat i := Some (take (unat l) d)]
      | DeleteRecord i \<Rightarrow> sl[unat i := None])"

definition spec_slots :: "page_op list \<Rightarrow> u8 list option list" where
  "spec_slots ops = foldl spec_step [] ops"

definition inserted_len :: "page_op \<Rightarrow> nat" where
  "inserted_len x = (case x of InsertRecord d l \<Rightarrow> unat l | _ \<Rightarrow> 0)"

text \<open>
  An insert whose space requirement \<open>length + 4\<close> does not wrap around in 16 bits, that
  is, of at most 65531 bytes.
\<close>

definition no_wrap :: "page_op \<Rightarrow> bool" where
  "no_wrap x = (case x of InsertRecord d l \<Rightarrow> unat l + SLOT_SIZE < 65536 | _ \<Rightarrow> True)"

definition inserted_bytes :: "page_op list \<Rightarrow> nat" where
  "inserted_bytes ops = sum_list (map inserted_len ops)"

definition live_bytes :: "u8 list option list \<Rightarrow> nat" where
  "live_bytes sl = sum_list (map (\<lambda>v. case v of None \<Rightarrow> 0 | Some d \<Rightarrow> length d) sl)"

definition spec_read :: "u8 list option list \<Rightarrow> u16 \<Rightarrow> page_error + u8 list" where
  "spec_read sl s =
     (if unat s < length sl
      then (case sl ! unat s of None \<Rightarrow> Inl BadSlot | Some d \<Rightarrow> Inr d)
      else Inl BadSlot)"

lemma page_rel_bounds:
  assumes "page_rel p sl tot"
  shows "length p = PAGE_SIZE" "unat (slot_count p) = length sl"
    "HEADER_SIZE + SLOT_SIZE * length sl + unat (free_space p) = unat (data_start p)"
    "unat (data_start p) \<le> PAGE_SIZE"
    "HEADER_SIZE + SLOT_SIZE * length sl \<le> PAGE_SIZE"
    "HEADER_SIZE + SLOT_SIZE * length sl \<le> unat (data_start p)"
  using assms by (auto simp: page_rel_def)

lemma read_record_rel:
  assumes R: "page_rel p sl tot"
  shows "read_record p s = spec_read sl s"
proof (cases "unat s < length sl")
  case False
  then have "get_slot p s = None"
    using page_rel_bounds(2) [OF R] by (simp add: get_slot_None)
  with False show ?thesis
    by (simp add: read_record_def get_record_def spec_read_def)
next
  case True
  define ptr where "ptr = HEADER_SIZE + unat s * SLOT_SIZE"
  have gs: "get_slot p s = Some ptr"
    using True page_rel_bounds(2) [OF R] by (simp add: get_slot_Some ptr_def)
  have ip: "in_page ptr SLOT_SIZE"
    using True page_rel_bounds(5) [OF R] by (simp add: in_page_def ptr_def size_defs)
  from R True have sr: "slot_rel p ptr (sl ! unat s)"
    by (simp add: page_rel_def ptr_def)
  show ?thesis
  proof (cases "sl ! unat s")
    case None
    with sr have "is_deleted p ptr" by (simp add: slot_rel_def is_deleted_def)
    with gs ip None True show ?thesis
      by (simp add: read_record_def get_record_def spec_read_def)
  next
    case (Some d)
    with sr have f: "unat (data_start p) \<le> unat (slot_offset p ptr)"
      "unat (slot_offset p ptr) + length d \<le> PAGE_SIZE"
      "unat (slot_length p ptr) = length d"
      "load_bytes p (unat (slot_offset p ptr)) (length d) = d"
      by (simp_all add: slot_rel_def)
    from f(1) page_rel_bounds(6) [OF R] have "24 \<le> unat (slot_offset p ptr)"
      by (simp add: size_defs)
    then have ne: "slot_offset p ptr \<noteq> 0" by auto
    from f(2) have "unat (slot_offset p ptr) \<le> 8192" by (simp add: size_defs)
    then have nd: "slot_offset p ptr \<noteq> 0xFFFF" by auto
    from gs ip ne nd f Some True show ?thesis
      by (simp add: read_record_def get_record_def spec_read_def is_empty_def
          is_deleted_def in_page_def)
  qed
qed

lemma slot_rel_cong:
  assumes "slot_rel p ptr v"
    and "slot_offset p' ptr = slot_offset p ptr"
    and "slot_length p' ptr = slot_length p ptr"
    and "unat (data_start p') \<le> unat (data_start p)"
    and "\<And>d. v = Some d \<Longrightarrow>
           load_bytes p' (unat (slot_offset p ptr)) (length d) =
           load_bytes p (unat (slot_offset p ptr)) (length d)"
  shows "slot_rel p' ptr v"
  using assms by (cases v) (auto simp: slot_rel_def)

lemma slot_rel_live:
  assumes "slot_rel p ptr v" "slot_offset p ptr \<noteq> 0xFFFF"
  obtains d where "v = Some d" "unat (data_start p) \<le> unat (slot_offset p ptr)"
    "unat (slot_offset p ptr) + length d \<le> PAGE_SIZE" "unat (slot_length p ptr) = length d"
  using assms by (cases v) (auto simp: slot_rel_def)

lemma slot_rel_Some_live:
  assumes "slot_rel p ptr (Some d)"
  shows "slot_offset p ptr \<noteq> 0xFFFF"
proof -
  from assms have "unat (slot_offset p ptr) \<le> 8192" by (simp add: slot_rel_def size_defs)
  then show ?thesis by auto
qed

lemma sp_less: "i < n \<Longrightarrow> HEADER_SIZE + i * SLOT_SIZE + 4 \<le> HEADER_SIZE + n * SLOT_SIZE"
  by (simp add: size_defs)

lemma page_rel_insert:
  assumes R: "page_rel p sl tot" and nw: "unat len + SLOT_SIZE < 65536"
    and ins: "insert_record p data len = Inr (p', s)"
  shows "page_rel p' (sl @ [Some (take (unat len) data)]) (tot + unat len)"
    and "s = of_nat (length sl)"
proof -
  define n where "n = length sl"
  define L where "L = unat len"
  note B = page_rel_bounds [OF R, folded n_def]
  have gap: "HEADER_SIZE + SLOT_SIZE * n + unat (free_space p) = unat (data_start p)"
    using B(3) .
  note E = insert_record_effect [OF B(1) B(2) gap B(4) nw ins, folded L_def]
  have tot: "unat (data_start p) + tot = PAGE_SIZE"
    using R by (simp add: page_rel_def)
  have sr: "slot_rel p (HEADER_SIZE + i * SLOT_SIZE) (sl ! i)" if "i < n" for i
    using R that by (simp add: page_rel_def n_def)
  have so: "slots_ordered p n" using R by (simp add: page_rel_def n_def)
  have LD: "L + SLOT_SIZE \<le> unat (free_space p)" using E(1) .
  have ds': "unat (data_start p') + L = unat (data_start p)"
    using E(6) LD gap by simp
  have old_off: "slot_offset p' (HEADER_SIZE + i * SLOT_SIZE) =
                 slot_offset p (HEADER_SIZE + i * SLOT_SIZE)" if "i < n" for i
    using E(11) [of "HEADER_SIZE + i * SLOT_SIZE"] sp_less [OF that]
    by (simp add: slot_offset_def)
  have old_len: "slot_length p' (HEADER_SIZE + i * SLOT_SIZE) =
                 slot_length p (HEADER_SIZE + i * SLOT_SIZE)" if "i < n" for i
    using E(11) [of "HEADER_SIZE + i * SLOT_SIZE + 2"] sp_less [OF that]
    by (simp add: slot_length_def)
  have old: "slot_rel p' (HEADER_SIZE + i * SLOT_SIZE) (sl ! i)" if "i < n" for i
  proof (rule slot_rel_cong [OF sr [OF that] old_off [OF that] old_len [OF that]])
    show "unat (data_start p') \<le> unat (data_start p)" using ds' by simp
  next
    fix d assume "sl ! i = Some d"
    with sr [OF that] have "unat (data_start p) \<le> unat (slot_offset p (HEADER_SIZE + i * SLOT_SIZE))"
      "unat (slot_offset p (HEADER_SIZE + i * SLOT_SIZE)) + length d \<le> PAGE_SIZE"
      by (simp_all add: slot_rel_def)
    then show "load_bytes p' (unat (slot_offset p (HEADER_SIZE + i * SLOT_SIZE))) (length d) =
               load_bytes p (unat (slot_offset p (HEADER_SIZE + i * SLOT_SIZE))) (length d)"
      by (rule E(12))
  qed
  have new: "slot_rel p' (HEADER_SIZE + n * SLOT_SIZE) (Some (take L data))"
    using E(2) E(8) E(9) E(10) ds' B(4) by (simp add: slot_rel_def L_def)
  have slots: "\<forall>i<length (sl @ [Some (take L data)]).
      slot_rel p' (HEADER_SIZE + i * SLOT_SIZE) ((sl @ [Some (take L data)]) ! i)"
  proof (intro allI impI)
    fix i assume "i < length (sl @ [Some (take L data)])"
    then have "i < n \<or> i = n" by (auto simp: n_def)
    then consider "i < n" | "i = n" by blast
    then show "slot_rel p' (HEADER_SIZE + i * SLOT_SIZE) ((sl @ [Some (take L data)]) ! i)"
    proof cases
      case 1
      with old [OF 1] show ?thesis by (simp add: nth_append n_def)
    next
      case 2
      with new show ?thesis by (simp add: nth_append n_def)
    qed
  qed
  have ord: "slots_ordered p' (Suc n)"
    unfolding slots_ordered_def
  proof (intro allI impI)
    fix i j assume ij: "i < j" "j < Suc n"
      and li: "slot_offset p' (HEADER_SIZE + i * SLOT_SIZE) \<noteq> 0xFFFF"
      and lj: "slot_offset p' (HEADER_SIZE + j * SLOT_SIZE) \<noteq> 0xFFFF"
    have i: "i < n" using ij by simp
    show "unat (slot_offset p' (HEADER_SIZE + j * SLOT_SIZE)) +
          unat (slot_length p' (HEADER_SIZE + j * SLOT_SIZE)) \<le>
          unat (slot_offset p' (HEADER_SIZE + i * SLOT_SIZE))"
    proof (cases "j < n")
      case True
      with so ij li lj show ?thesis
        by (simp add: slots_ordered_def old_off old_len i)
    next
      case False
      then have j: "j = n" using ij by simp
      from li have "slot_offset p (HEADER_SIZE + i * SLOT_SIZE) \<noteq> 0xFFFF"
        by (simp add: old_off i)
      from slot_rel_live [OF sr [OF i] this]
      have "unat (data_start p) \<le> unat (slot_offset p (HEADER_SIZE + i * SLOT_SIZE))"
        by blast
      then show ?thesis
        using ds' E(8) E(9) by (simp add: j old_off i L_def)
    qed
  qed
  show "page_rel p' (sl @ [Some (take (unat len) data)]) (tot + unat len)"
    unfolding page_rel_def
    using E(4) E(5) E(7) ds' tot gap LD slots ord
    by (simp add: n_def [symmetric] L_def [symmetric] size_defs)
  show "s = of_nat (length sl)"
    using E(3) B(2) by (metis n_def of_nat_unat ucast_id)
qed

lemma page_rel_delete:
  assumes R: "page_rel p sl tot" and del: "delete_record p i = Inr p'"
  shows "page_rel p' (sl[unat i := None]) tot"
proof -
  define n where "n = length sl"
  define k where "k = unat i"
  note B = page_rel_bounds [OF R, folded n_def]
  note E = delete_record_effect [OF B(1) B(2) B(5) del, folded k_def]
  have sr: "slot_rel p (HEADER_SIZE + j * SLOT_SIZE) (sl ! j)" if "j < n" for j
    using R that by (simp add: page_rel_def n_def)
  have so: "slots_ordered p n" using R by (simp add: page_rel_def n_def)
  have fr: "rd16 p' off = rd16 p off"
    if "HEADER_SIZE + j * SLOT_SIZE \<le> off" "off + 2 \<le> HEADER_SIZE + j * SLOT_SIZE + 4"
      "j < n" "j \<noteq> k" for off j
  proof (rule E(12))
    show "HEADER_SIZE \<le> off" using that by simp
    show "off + 2 \<le> PAGE_SIZE" using that B(5) by (simp add: size_defs)
    from that(4) have "j < k \<or> k < j" by auto
    then show "off + 2 \<le> HEADER_SIZE + k * SLOT_SIZE \<or> HEADER_SIZE + k * SLOT_SIZE + SLOT_SIZE \<le> off"
      using that(1,2) by (auto simp: size_defs)
  qed
  have old_off: "slot_offset p' (HEADER_SIZE + j * SLOT_SIZE) =
                 slot_offset p (HEADER_SIZE + j * SLOT_SIZE)" if "j < n" "j \<noteq> k" for j
    using fr [of j "HEADER_SIZE + j * SLOT_SIZE"] that by (simp add: slot_offset_def)
  have old_len: "slot_length p' (HEADER_SIZE + j * SLOT_SIZE) =
                 slot_length p (HEADER_SIZE + j * SLOT_SIZE)" if "j < n" "j \<noteq> k" for j
    using fr [of j "HEADER_SIZE + j * SLOT_SIZE + 2"] that by (simp add: slot_length_def)
  have old: "slot_rel p' (HEADER_SIZE + j * SLOT_SIZE) (sl ! j)" if "j < n" "j \<noteq> k" for j
  proof (rule slot_rel_cong [OF sr [OF that(1)] old_off [OF that] old_len [OF that]])
    show "unat (data_start p') \<le> unat (data_start p)" using E(5) by simp
  next
    fix d assume "sl ! j = Some d"
    with sr [OF that(1)] have "unat (data_start p) \<le> unat (slot_offset p (HEADER_SIZE + j * SLOT_SIZE))"
      "unat (slot_offset p (HEADER_SIZE + j * SLOT_SIZE)) + length d \<le> PAGE_SIZE"
      by (simp_all add: slot_rel_def)
    with B(6) show "load_bytes p' (unat (slot_offset p (HEADER_SIZE + j * SLOT_SIZE))) (length d) =
               load_bytes p (unat (slot_offset p (HEADER_SIZE + j * SLOT_SIZE))) (length d)"
      by (intro E(13)) simp_all
  qed
  have slots: "\<forall>j<length (sl[k := None]).
      slot_rel p' (HEADER_SIZE + j * SLOT_SIZE) (sl[k := None] ! j)"
  proof (intro allI impI)
    fix j assume j: "j < length (sl[k := None])"
    show "slot_rel p' (HEADER_SIZE + j * SLOT_SIZE) (sl[k := None] ! j)"
    proof (cases "j = k")
      case True
      with j E(10) E(11) show ?thesis by (simp add: slot_rel_def)
    next
      case False
      with j old [of j] show ?thesis by (simp add: n_def)
    qed
  qed
  have ord: "slots_ordered p' n"
    unfolding slots_ordered_def
  proof (intro allI impI)
    fix a b assume ab: "a < b" "b < n"
      and la: "slot_offset p' (HEADER_SIZE + a * SLOT_SIZE) \<noteq> 0xFFFF"
      and lb: "slot_offset p' (HEADER_SIZE + b * SLOT_SIZE) \<noteq> 0xFFFF"
    from la E(10) have ak: "a \<noteq> k" by auto
    from lb E(10) have bk: "b \<noteq> k" by auto
    have a: "a < n" using ab by simp
    from so ab la lb show "unat (slot_offset p' (HEADER_SIZE + b * SLOT_SIZE)) +
          unat (slot_length p' (HEADER_SIZE + b * SLOT_SIZE)) \<le>
          unat (slot_offset p' (HEADER_SIZE + a * SLOT_SIZE))"
      by (simp add: slots_ordered_def old_off old_len a ak bk)
  qed
  have tot: "unat (data_start p) + tot = PAGE_SIZE"
    using R by (simp add: page_rel_def)
  show ?thesis
    unfolding page_rel_def
    using E(3) E(4) E(5) E(6) B(2) B(3) tot slots ord
    by (simp add: n_def [symmetric] k_def [symmetric])
qed

lemma page_rel_update:
  assumes R: "page_rel p sl tot" and upd: "update_record p i data len = Inr p'"
  shows "page_rel p' (sl[unat i := Some (take (unat len) data)]) tot"
proof -
  define n where "n = length sl"
  define k where "k = unat i"
  define L where "L = unat len"
  define ko where "ko = unat (slot_offset p (HEADER_SIZE + k * SLOT_SIZE))"
  note B = page_rel_bounds [OF R, folded n_def]
  have sr: "slot_rel p (HEADER_SIZE + j * SLOT_SIZE) (sl ! j)" if "j < n" for j
    using R that by (simp add: page_rel_def n_def)
  have so: "slots_ordered p n" using R by (simp add: page_rel_def n_def)
  have lo: "HEADER_SIZE + SLOT_SIZE * n \<le> unat (slot_offset p (HEADER_SIZE + unat i * SLOT_SIZE)) \<and>
            unat (slot_offset p (HEADER_SIZE + unat i * SLOT_SIZE)) +
            unat (slot_length p (HEADER_SIZE + unat i * SLOT_SIZE)) \<le> PAGE_SIZE"
    if "unat i < n" "slot_offset p (HEADER_SIZE + unat i * SLOT_SIZE) \<noteq> 0xFFFF"
    using slot_rel_live [OF sr [OF that(1)] that(2)] B(6) by (metis le_trans)
  note E = update_record_effect [OF B(1) B(2) B(5) lo upd, folded k_def L_def ko_def]
  from slot_rel_live [OF sr [OF E(1) [unfolded k_def [symmetric]]] E(2)]
  obtain d0 where d0: "sl ! k = Some d0" "unat (data_start p) \<le> ko"
    "ko + length d0 \<le> PAGE_SIZE"
    "unat (slot_length p (HEADER_SIZE + k * SLOT_SIZE)) = length d0"
    unfolding ko_def by blast
  have Ld0: "L \<le> length d0" using E(3) d0(4) by simp
  have fr: "rd16 p' off = rd16 p off"
    if "HEADER_SIZE + j * SLOT_SIZE \<le> off" "off + 2 \<le> HEADER_SIZE + j * SLOT_SIZE + 4"
      "j < n" "j \<noteq> k" for off j
  proof (rule E(15))
    show "HEADER_SIZE \<le> off" using that by simp
    show "off + 2 \<le> HEADER_SIZE + SLOT_SIZE * n" using that by (simp add: size_defs)
    from that(4) have "j < k \<or> k < j" by auto
    then show "off + 2 \<le> HEADER_SIZE + k * SLOT_SIZE + 2 \<or> HEADER_SIZE + k * SLOT_SIZE + SLOT_SIZE \<le> off"
      using that(1,2) by (auto simp: size_defs)
  qed
  have old_off: "slot_offset p' (HEADER_SIZE + j * SLOT_SIZE) =
                 slot_offset p (HEADER_SIZE + j * SLOT_SIZE)" if "j < n" for j
  proof (cases "j = k")
    case True
    then show ?thesis using E(12) by simp
  next
    case False
    then show ?thesis
      using fr [of j "HEADER_SIZE + j * SLOT_SIZE"] that by (simp add: slot_offset_def)
  qed
  have old_len: "slot_length p' (HEADER_SIZE + j * SLOT_SIZE) =
                 slot_length p (HEADER_SIZE + j * SLOT_SIZE)" if "j < n" "j \<noteq> k" for j
    using fr [of j "HEADER_SIZE + j * SLOT_SIZE + 2"] that by (simp add: slot_length_def)
  have disj: "unat (slot_offset p (HEADER_SIZE + j * SLOT_SIZE)) + length d \<le> ko \<or>
              ko + L \<le> unat (slot_offset p (HEADER_SIZE + j * SLOT_SIZE))"
    if j: "j < n" "j \<noteq> k" and d: "sl ! j = Some d" for j d
  proof -
    from sr [OF j(1)] d have lj: "slot_offset p (HEADER_SIZE + j * SLOT_SIZE) \<noteq> 0xFFFF"
      and lenj: "unat (slot_length p (HEADER_SIZE + j * SLOT_SIZE)) = length d"
      using slot_rel_Some_live by (auto simp: slot_rel_def)
    from j(2) consider "j < k" | "k < j" by linarith
    then show ?thesis
    proof cases
      case 1
      with so E(1) E(2) lj have "ko + length d0 \<le> unat (slot_offset p (HEADER_SIZE + j * SLOT_SIZE))"
        by (simp add: slots_ordered_def ko_def d0(4) [symmetric])
      with Ld0 show ?thesis by simp
    next
      case 2
      with so j(1) E(2) lj show ?thesis
        by (simp add: slots_ordered_def ko_def lenj [symmetric])
    qed
  qed
  have old: "slot_rel p' (HEADER_SIZE + j * SLOT_SIZE) (sl ! j)" if "j < n" "j \<noteq> k" for j
  proof (rule slot_rel_cong [OF sr [OF that(1)] old_off [OF that(1)] old_len [OF that]])
    show "unat (data_start p') \<le> unat (data_start p)" using E(7) by simp
  next
    fix d assume d: "sl ! j = Some d"
    with sr [OF that(1)] have "unat (data_start p) \<le> unat (slot_offset p (HEADER_SIZE + j * SLOT_SIZE))"
      "unat (slot_offset p (HEADER_SIZE + j * SLOT_SIZE)) + length d \<le> PAGE_SIZE"
      by (simp_all add: slot_rel_def)
    with B(6) disj [OF that d]
    show "load_bytes p' (unat (slot_offset p (HEADER_SIZE + j * SLOT_SIZE))) (length d) =
               load_bytes p (unat (slot_offset p (HEADER_SIZE + j * SLOT_SIZE))) (length d)"
      by (intro E(16)) (simp_all add: ko_def)
  qed
  have new: "slot_rel p' (HEADER_SIZE + k * SLOT_SIZE) (Some (take L data))"
    using E(4) E(7) E(12) E(13) E(14) d0 Ld0 by (simp add: slot_rel_def ko_def L_def)
  have slots: "\<forall>j<length (sl[k := Some (take L data)]).
      slot_rel p' (HEADER_SIZE + j * SLOT_SIZE) (sl[k := Some (take L data)] ! j)"
  proof (intro allI impI)
    fix j assume j: "j < length (sl[k := Some (take L data)])"
    show "slot_rel p' (HEADER_SIZE + j * SLOT_SIZE) (sl[k := Some (take L data)] ! j)"
    proof (cases "j = k")
      case True
      with j new show ?thesis by simp
    next
      case False
      with j old [of j] show ?thesis by (simp add: n_def)
    qed
  qed
  have len_le: "unat (slot_length p' (HEADER_SIZE + j * SLOT_SIZE)) \<le>
                unat (slot_length p (HEADER_SIZE + j * SLOT_SIZE))" if "j < n" for j
  proof (cases "j = k")
    case True
    then show ?thesis using E(13) E(3) by (simp add: L_def)
  next
    case False
    then show ?thesis using old_len [OF that] by simp
  qed
  have ord: "slots_ordered p' n"
    unfolding slots_ordered_def
  proof (intro allI impI)
    fix a b assume ab: "a < b" "b < n"
      and la: "slot_offset p' (HEADER_SIZE + a * SLOT_SIZE) \<noteq> 0xFFFF"
      and lb: "slot_offset p' (HEADER_SIZE + b * SLOT_SIZE) \<noteq> 0xFFFF"
    have a: "a < n" using ab by simp
    from so ab la lb have "unat (slot_offset p (HEADER_SIZE + b * SLOT_SIZE)) +
          unat (slot_length p (HEADER_SIZE + b * SLOT_SIZE)) \<le>
          unat (slot_offset p (HEADER_SIZE + a * SLOT_SIZE))"
      by (simp add: slots_ordered_def old_off a)
    with len_le [OF ab(2)] show "unat (slot_offset p' (HEADER_SIZE + b * SLOT_SIZE)) +
          unat (slot_length p' (HEADER_SIZE + b * SLOT_SIZE)) \<le>
          unat (slot_offset p' (HEADER_SIZE + a * SLOT_SIZE))"
      by (simp add: old_off a ab(2))
  qed
  have tot: "unat (data_start p) + tot = PAGE_SIZE"
    using R by (simp add: page_rel_def)
  show ?thesis
    unfolding page_rel_def
    using E(5) E(6) E(7) E(8) B(2) B(3) tot slots ord
    by (simp add: n_def [symmetric] k_def [symmetric] L_def [symmetric])
qed

definition spec_accepts :: "u8 list option list \<Rightarrow> nat \<Rightarrow> page_op \<Rightarrow> bool" where
  "spec_accepts sl tot x =
     (case x of
        InsertRecord d l \<Rightarrow>
          unat l \<le> length d \<and>
          HEADER_SIZE + SLOT_SIZE * length sl + SLOT_SIZE + unat l + tot \<le> PAGE_SIZE
      | UpdateRecord i d l \<Rightarrow>
          unat i < length sl \<and> unat l \<le> length d \<and>
          (case sl ! unat i of None \<Rightarrow> False | Some d0 \<Rightarrow> unat l \<le> length d0)
      | DeleteRecord i \<Rightarrow> unat i < length sl \<and> sl ! unat i \<noteq> None)"

fun spec_run :: "u8 list option list \<Rightarrow> nat \<Rightarrow> page_op list \<Rightarrow> bool" where
  "spec_run sl tot [] = True"
| "spec_run sl tot (x # xs) =
     (spec_accepts sl tot x \<and> spec_run (spec_step sl x) (tot + inserted_len x) xs)"

lemma insert_record_accepts:
  assumes R: "page_rel p sl tot" and A: "spec_accepts sl tot (InsertRecord data len)"
  shows "\<exists>p' s. insert_record p data len = Inr (p', s)"
proof -
  define n where "n = length sl"
  define L where "L = unat len"
  define D where "D = unat (data_start p)"
  note B = page_rel_bounds [OF R, folded n_def]
  have tot: "D + tot = 8192" using R by (simp add: page_rel_def D_def size_defs)
  from A have Ld: "L \<le> length data" and fit: "28 + 4 * n + L + tot \<le> 8192"
    by (simp_all add: spec_accepts_def L_def n_def size_defs)
  have gap: "24 + 4 * n + unat (free_space p) = D"
    using B(3) by (simp add: size_defs D_def)
  have LF: "L + 4 \<le> unat (free_space p)" using gap tot fit by simp
  have Fb: "unat (free_space p) < 65536"
    using unsigned_less [of "free_space p", where ?'a = nat] by simp
  have req: "unat (len + 4) = L + 4"
    using LF Fb by (simp add: L_def unat_word_ariths)
  have c1: "\<not> free_space p < len + of_nat SLOT_SIZE"
    using req LF by (simp add: word_less_nat_alt size_defs)
  have LD: "L \<le> D" using gap LF by simp
  have ro: "unat (data_start p - len) = D - L"
    using LD by (simp add: D_def L_def unat_sub_if')
  have sde: "unat (slot_directory_end p + of_nat SLOT_SIZE) = 28 + 4 * n"
    using B(2) B(5) by (simp add: slot_directory_end_def size_defs unat_word_ariths unat_of_nat)
  have c2: "\<not> data_start p - len < slot_directory_end p + of_nat SLOT_SIZE"
    using ro sde gap LF by (simp add: word_less_nat_alt)
  show ?thesis
    using c1 c2 Ld
    by (simp add: insert_record_def Let_def L_def [symmetric])
qed

lemma delete_record_accepts:
  assumes R: "page_rel p sl tot" and A: "spec_accepts sl tot (DeleteRecord i)"
  shows "\<exists>p'. delete_record p i = Inr p'"
proof -
  from A obtain d where i: "unat i < length sl" and d: "sl ! unat i = Some d"
    by (auto simp: spec_accepts_def)
  define ptr where "ptr = HEADER_SIZE + unat i * SLOT_SIZE"
  note B = page_rel_bounds [OF R]
  have gs: "get_slot p i = Some ptr" using i B(2) by (simp add: get_slot_Some ptr_def)
  have ip: "in_page ptr SLOT_SIZE" using i B(5) by (simp add: in_page_def ptr_def size_defs)
  from R i d have sr: "slot_rel p ptr (Some d)" by (auto simp: page_rel_def ptr_def)
  then have nd: "\<not> is_deleted p ptr" using slot_rel_Some_live by (simp add: is_deleted_def)
  from sr B(6) have "24 \<le> unat (slot_offset p ptr)" by (simp add: slot_rel_def size_defs)
  then have "slot_offset p ptr \<noteq> 0" by auto
  then have ne: "\<not> is_empty p ptr" by (simp add: is_empty_def)
  show ?thesis using gs ip nd ne by (simp add: delete_record_def)
qed

lemma update_record_accepts:
  assumes R: "page_rel p sl tot" and A: "spec_accepts sl tot (UpdateRecord i data len)"
  shows "\<exists>p'. update_record p i data len = Inr p'"
proof -
  from A obtain d where i: "unat i < length sl" and d: "sl ! unat i = Some d"
    and Ld: "unat len \<le> length data" and fit: "unat len \<le> length d"
    by (auto simp: spec_accepts_def split: option.splits)
  define ptr where "ptr = HEADER_SIZE + unat i * SLOT_SIZE"
  note B = page_rel_bounds [OF R]
  have gs: "get_slot p i = Some ptr" using i B(2) by (simp add: get_slot_Some ptr_def)
  have ip: "in_page ptr SLOT_SIZE" using i B(5) by (simp add: in_page_def ptr_def size_defs)
  from R i d have sr: "slot_rel p ptr (Some d)" by (auto simp: page_rel_def ptr_def)
  then have nd: "\<not> is_deleted p ptr" using slot_rel_Some_live by (simp add: is_deleted_def)
  from sr B(6) have "24 \<le> unat (slot_offset p ptr)" by (simp add: slot_rel_def size_defs)
  then have "slot_offset p ptr \<noteq> 0" by auto
  then have ne: "\<not> is_empty p ptr" by (simp add: is_empty_def)
  from sr fit have c1: "\<not> len > slot_length p ptr"
    by (simp add: slot_rel_def word_less_nat_alt)
  from sr fit have c2: "in_page (unat (slot_offset p ptr)) (unat len)"
    by (simp add: slot_rel_def in_page_def)
  show ?thesis using gs ip nd ne c1 c2 Ld by (simp add: update_record_def Let_def)
qed

lemma apply_op_accepts:
  assumes R: "page_rel p sl tot" and A: "spec_accepts sl tot x"
  shows "\<exists>p'. apply_op p x = Inr p'"
proof (cases x)
  case (InsertRecord d l)
  with insert_record_accepts [OF R, of d l] A obtain p' s where "insert_record p d l = Inr (p', s)"
    by auto
  with InsertRecord show ?thesis by (simp add: apply_op_def)
next
  case (UpdateRecord i d l)
  with update_record_accepts [OF R] A show ?thesis by (auto simp: apply_op_def)
next
  case (DeleteRecord i)
  with delete_record_accepts [OF R] A show ?thesis by (auto simp: apply_op_def)
qed

lemma apply_op_rel:
  assumes R: "page_rel p sl tot" and nw: "no_wrap x" and A: "apply_op p x = Inr p'"
  shows "page_rel p' (spec_step sl x) (tot + inserted_len x)"
proof (cases x)
  case (InsertRecord d l)
  with A obtain s where ins: "insert_record p d l = Inr (p', s)"
    by (auto simp: apply_op_def split: sum.splits)
  from nw InsertRecord have "unat l + SLOT_SIZE < 65536" by (simp add: no_wrap_def)
  from page_rel_insert(1) [OF R this ins] InsertRecord show ?thesis
    by (simp add: spec_step_def inserted_len_def)
next
  case (UpdateRecord i d l)
  with A have "update_record p i d l = Inr p'" by (simp add: apply_op_def)
  from page_rel_update [OF R this] UpdateRecord show ?thesis
    by (simp add: spec_step_def inserted_len_def)
next
  case (DeleteRecord i)
  with A have "delete_record p i = Inr p'" by (simp add: apply_op_def)
  from page_rel_delete [OF R this] DeleteRecord show ?thesis
    by (simp add: spec_step_def inserted_len_def)
qed

lemma run_ops_rel:
  "page_rel p sl tot \<Longrightarrow> run_ops p ops = Inr p' \<Longrightarrow> \<forall>x \<in> set ops. no_wrap x \<Longrightarrow>
   page_rel p' (foldl spec_step sl ops) (tot + inserted_bytes ops)"
proof (induction ops arbitrary: p sl tot)
  case Nil
  then show ?case by (simp add: inserted_bytes_def)
next
  case (Cons x xs)
  from Cons.prems(2) obtain p1 where a: "apply_op p x = Inr p1" and r: "run_ops p1 xs = Inr p'"
    by (auto split: sum.splits)
  from Cons.prems(3) have nw: "no_wrap x" and nws: "\<forall>x \<in> set xs. no_wrap x" by simp_all
  from Cons.IH [OF apply_op_rel [OF Cons.prems(1) nw a] r nws] show ?case
    by (simp add: inserted_bytes_def add.assoc)
qed

lemma spec_accepts_no_wrap: "spec_accepts sl tot x \<Longrightarrow> no_wrap x"
  by (cases x) (simp_all add: spec_accepts_def no_wrap_def size_defs)

lemma spec_run_no_wrap: "spec_run sl tot ops \<Longrightarrow> \<forall>x \<in> set ops. no_wrap x"
  by (induction ops arbitrary: sl tot) (auto dest: spec_accepts_no_wrap)

lemma run_ops_accepts:
  "page_rel p sl tot \<Longrightarrow> spec_run sl tot ops \<Longrightarrow> \<exists>p'. run_ops p ops = Inr p'"
proof (induction ops arbitrary: p sl tot)
  case Nil
  then show ?case by simp
next
  case (Cons x xs)
  from Cons.prems(2) have A: "spec_accepts sl tot x"
    and S: "spec_run (spec_step sl x) (tot + inserted_len x) xs" by simp_all
  from apply_op_accepts [OF Cons.prems(1) A] obtain p1 where a: "apply_op p x = Inr p1" ..
  from Cons.IH [OF apply_op_rel [OF Cons.prems(1) spec_accepts_no_wrap [OF A] a] S] a
  show ?case by simp
qed

text \<open>
  C5 (as amended).  For every sequence of \<open>insert_record\<close> / \<open>update_record\<close> /
  \<open>delete_record\<close> operations that a freshly initialised page accepts, in which no
  insert is longer than 65531 bytes (\<open>no_wrap\<close>), reading a slot
  back through \<open>get_record\<close> gives the bytes of the last accepted write to that slot,
  and fails (returns \<open>false\<close>) for a deleted slot and for a slot never allocated.  The
  accounting identity holds with the bytes of \<^emph>\<open>all accepted inserts\<close> in place of the
  live record lengths: \<open>free_space + inserted bytes + slot_count * 4 + header_size =
  PAGE_SIZE\<close>, since neither a delete nor a shrinking update gives space back.
\<close>

theorem page_round_trip:
  assumes "run_ops (page_init pid fl) ops = Inr p" and "\<forall>x \<in> set ops. no_wrap x"
  shows "read_record p s = spec_read (spec_slots ops) s \<and>
         unat (free_space p) + inserted_bytes ops + unat (slot_count p) * SLOT_SIZE +
           HEADER_SIZE = PAGE_SIZE"
proof -
  from run_ops_rel [OF page_rel_init assms]
  have R: "page_rel p (spec_slots ops) (inserted_bytes ops)"
    by (simp add: spec_slots_def)
  from read_record_rel [OF R] have "read_record p s = spec_read (spec_slots ops) s" .
  moreover from R have "unat (free_space p) + inserted_bytes ops + unat (slot_count p) * SLOT_SIZE +
           HEADER_SIZE = PAGE_SIZE"
    by (simp add: page_rel_def size_defs)
  ultimately show ?thesis by simp
qed

definition sample_ops :: "page_op list" where
  "sample_ops = [InsertRecord [1, 2, 3] 3, UpdateRecord 0 [9, 8] 2, InsertRecord [5] 1,
                 DeleteRecord 1]"

lemma sample_ops_spec:
  "spec_run [] 0 sample_ops" "spec_slots sample_ops = [Some [9, 8], None]"
  "inserted_bytes sample_ops = 4"
  by (simp_all add: sample_ops_def spec_accepts_def spec_step_def spec_slots_def
      inserted_len_def inserted_bytes_def size_defs)

theorem page_round_trip_witness:
  "\<exists>p. run_ops (page_init 0 FLAG_LEAF) sample_ops = Inr p \<and>
       read_record p 0 = Inr [9, 8] \<and> read_record p 1 = Inl BadSlot \<and>
       unat (free_space p) + 4 + unat (slot_count p) * SLOT_SIZE + HEADER_SIZE = PAGE_SIZE"
proof -
  from run_ops_accepts [OF page_rel_init sample_ops_spec(1)]
  obtain p where p: "run_ops (page_init 0 FLAG_LEAF) sample_ops = Inr p" ..
  note nw = spec_run_no_wrap [OF sample_ops_spec(1)]
  from page_round_trip [OF p nw, of 0] page_round_trip [OF p nw, of 1] p show ?thesis
    by (auto simp: sample_ops_spec spec_read_def)
qed

text \<open>
  An insert of 65535 bytes into a fresh page: the space requirement wraps around to 3,
  the record offset to 8193, both tests pass, the copy behind the end of the page does not
  reach it, and the header counts 3 bytes as used.
\<close>

definition oversized_ops :: "page_op list" where
  "oversized_ops = [InsertRecord (replicate 65535 0) 65535]"

lemma oversized_insert:
  "\<exists>p. insert_record (page_init pid fl) (replicate 65535 b) 65535 = Inr (p, 0) \<and>
       free_space p = 8165 \<and> slot_count p = 1 \<and> data_start p = 8193"
proof -
  define p0 where "p0 = page_init pid fl"
  have l0: "length p0 = 8192" by (simp add: p0_def size_defs)
  have f0: "slot_count p0 = 0" "free_space p0 = 8168" "data_start p0 = 8192"
    by (simp_all add: p0_def page_init_fields)
  have st: "store_bytes p0 8193 s = p0" for s
    by (rule store_bytes_behind) (simp add: l0)
  define p' where "p' = set_dirty (set_free_space (set_data_start (set_slot_count
      (set_slot_length (set_slot_offset p0 24 8193) 24 65535) 1) 8193) 8165) True"
  have r0: "rd16 p0 16 = 0" "rd16 p0 18 = 8168" "rd16 p0 20 = 8192"
    using f0 by (simp_all add: hdr_defs)
  have w: "(- 57343 :: u16) = 8193" "(- 57371 :: u16) = 8165"
    by simp_all
  have "insert_record p0 (replicate 65535 b) 65535 = Inr (p', 0)"
    using l0 by (simp add: insert_record_def Let_def slot_directory_end_def size_defs
        slot_ptr_def p'_def hdr_defs r0 st w)
  moreover have "free_space p' = 8165" "slot_count p' = 1" "data_start p' = 8193"
    using l0 by (simp_all add: p'_def hdr_defs)
  ultimately show ?thesis unfolding p0_def by blast
qed

text \<open>
  C5 (as stated) fails in its accounting identity: after an accepted insert of one byte
  and an accepted delete of that slot no record is live, yet the free space has not grown
  back, so \<open>free_space + live lengths + slot_count * 4 + header_size\<close> is
  \<open>PAGE_SIZE - 1\<close>.  And a page accepts the insert of 65535 bytes, after which the
  identity fails whichever bytes are counted.
\<close>

definition insert_delete_ops :: "page_op list" where
  "insert_delete_ops = [InsertRecord [7] 1, DeleteRecord 0]"

lemma insert_delete_spec:
  "spec_run [] 0 insert_delete_ops" "spec_slots insert_delete_ops = [None]"
  "inserted_bytes insert_delete_ops = 1"
  by (simp_all add: insert_delete_ops_def spec_accepts_def spec_step_def spec_slots_def
      inserted_len_def inserted_bytes_def size_defs)

theorem page_accounting_counterexample:
  "(\<exists>p. run_ops (page_init 0 FLAG_LEAF) insert_delete_ops = Inr p \<and>
        live_bytes (spec_slots insert_delete_ops) = 0 \<and>
        unat (free_space p) + live_bytes (spec_slots insert_delete_ops) +
          unat (slot_count p) * SLOT_SIZE + HEADER_SIZE \<noteq> PAGE_SIZE) \<and>
   (\<exists>p. run_ops (page_init 0 FLAG_LEAF) oversized_ops = Inr p \<and>
        free_space p = 8165 \<and> slot_count p = 1 \<and>
        inserted_bytes oversized_ops = 65535 \<and>
        live_bytes (spec_slots oversized_ops) = 65535 \<and>
        unat (free_space p) + inserted_bytes oversized_ops +
          unat (slot_count p) * SLOT_SIZE + HEADER_SIZE \<noteq> PAGE_SIZE)"
proof -
  from run_ops_accepts [OF page_rel_init insert_delete_spec(1)]
  obtain p where p: "run_ops (page_init 0 FLAG_LEAF) insert_delete_ops = Inr p" ..
  from run_ops_rel [OF page_rel_init p spec_run_no_wrap [OF insert_delete_spec(1)]]
  have R: "page_rel p [None] 1"
    using insert_delete_spec by (simp add: spec_slots_def)
  then have "unat (free_space p) + 1 + unat (slot_count p) * SLOT_SIZE + HEADER_SIZE = PAGE_SIZE"
    by (simp add: page_rel_def size_defs)
  with p have first: "\<exists>p. run_ops (page_init 0 FLAG_LEAF) insert_delete_ops = Inr p \<and>
        live_bytes (spec_slots insert_delete_ops) = 0 \<and>
        unat (free_space p) + live_bytes (spec_slots insert_delete_ops) +
          unat (slot_count p) * SLOT_SIZE + HEADER_SIZE \<noteq> PAGE_SIZE"
    by (auto simp: insert_delete_spec live_bytes_def)
  from oversized_insert [of 0 FLAG_LEAF 0] obtain q
    where q: "insert_record (page_init 0 FLAG_LEAF) (replicate 65535 0) 65535 = Inr (q, 0)"
      and f: "free_space q = 8165" "slot_count q = 1"
    by blast
  have r: "run_ops (page_init 0 FLAG_LEAF) oversized_ops = Inr q"
    by (simp add: oversized_ops_def apply_op_def q)
  have c: "inserted_bytes oversized_ops = 65535" "live_bytes (spec_slots oversized_ops) = 65535"
    by (simp_all add: oversized_ops_def inserted_bytes_def inserted_len_def live_bytes_def
        spec_slots_def spec_step_def)
  have "unat (free_space q) + inserted_bytes oversized_ops +
          unat (slot_count q) * SLOT_SIZE + HEADER_SIZE \<noteq> PAGE_SIZE"
    by (simp add: f c size_defs)
  with r f c have second: "\<exists>p. run_ops (page_init 0 FLAG_LEAF) oversized_ops = Inr p \<and>
        free_space p = 8165 \<and> slot_count p = 1 \<and>
        inserted_bytes oversized_ops = 65535 \<and>
        live_bytes (spec_slots oversized_ops) = 65535 \<and>
        unat (free_space p) + inserted_bytes oversized_ops +
          unat (slot_count p) * SLOT_SIZE + HEADER_SIZE \<noteq> PAGE_SIZE"
    by blast
  from first second show ?thesis by blast
qed

subsection \<open>Header writes keep the slots\<close>

lemma page_rel_frame:
  assumes R: "page_rel p sl tot"
    and len: "length p' = length p"
    and sc: "slot_count p' = slot_count p"
    and fs: "free_space p' = free_space p"
    and ds: "data_start p' = data_start p"
    and fr16: "\<And>off. 24 \<le> off \<Longrightarrow> off + 2 \<le> 8192 \<Longrightarrow> rd16 p' off = rd16 p off"
    and frl: "\<And>off n. 24 \<le> off \<Longrightarrow> off + n \<le> 8192 \<Longrightarrow>
                load_bytes p' off n = load_bytes p off n"
  shows "page_rel p' sl tot"
proof -
  note B = page_rel_bounds [OF R]
  have so: "slot_offset p' (HEADER_SIZE + i * SLOT_SIZE) = slot_offset p (HEADER_SIZE + i * SLOT_SIZE)"
    and sl: "slot_length p' (HEADER_SIZE + i * SLOT_SIZE) = slot_length p (HEADER_SIZE + i * SLOT_SIZE)"
    if "i < length sl" for i
    using that B(5) by (simp_all add: slot_offset_def slot_length_def size_defs fr16)
  have sr: "slot_rel p' (HEADER_SIZE + i * SLOT_SIZE) (sl ! i)" if i: "i < length sl" for i
  proof (rule slot_rel_cong)
    show "slot_rel p (HEADER_SIZE + i * SLOT_SIZE) (sl ! i)"
      using R i by (simp add: page_rel_def)
    show "slot_offset p' (HEADER_SIZE + i * SLOT_SIZE) = slot_offset p (HEADER_SIZE + i * SLOT_SIZE)"
      using so [OF i] .
    show "slot_length p' (HEADER_SIZE + i * SLOT_SIZE) = slot_length p (HEADER_SIZE + i * SLOT_SIZE)"
      using sl [OF i] .
    show "unat (data_start p') \<le> unat (data_start p)" by (simp add: ds)
  next
    fix d
    assume d: "sl ! i = Some d"
    from R i d have s: "slot_rel p (HEADER_SIZE + i * SLOT_SIZE) (Some d)"
      by (auto simp: page_rel_def)
    then have "unat (data_start p) \<le> unat (slot_offset p (HEADER_SIZE + i * SLOT_SIZE))"
      "unat (slot_offset p (HEADER_SIZE + i * SLOT_SIZE)) + length d \<le> PAGE_SIZE"
      by (simp_all add: slot_rel_def)
    with B(6) show "load_bytes p' (unat (slot_offset p (HEADER_SIZE + i * SLOT_SIZE))) (length d) =
        load_bytes p (unat (slot_offset p (HEADER_SIZE + i * SLOT_SIZE))) (length d)"
      by (intro frl) (simp_all add: size_defs)
  qed
  have ord: "slots_ordered p' (length sl)"
    using R so sl by (simp add: page_rel_def slots_ordered_def)
  from R sr ord show ?thesis
    by (simp add: page_rel_def len sc fs ds)
qed

lemma page_rel_set_lsn:
  assumes R: "page_rel p sl tot"
  shows "page_rel (set_lsn p l) sl tot"
  using page_rel_bounds(1) [OF R]
  by (intro page_rel_frame [OF R]) (simp_all add: hdr_defs size_defs)

lemma page_rel_set_dirty:
  assumes R: "page_rel p sl tot"
  shows "page_rel (set_dirty p b) sl tot"
  using page_rel_bounds(1) [OF R]
  by (intro page_rel_frame [OF R]) (simp_all add: hdr_defs size_defs)

lemma page_lsn_stamped:
  assumes "length p = PAGE_SIZE"
  shows "page_lsn (set_dirty (set_lsn p l) b) = l"
  using assms by (simp add: hdr_defs size_defs)

lemma get_record_deleted:
  assumes R: "page_rel p sl tot" and i: "unat s < length sl" and d: "sl ! unat s = None"
  shows "get_record p s = Inl BadSlot"
proof -
  define ptr where "ptr = HEADER_SIZE + unat s * SLOT_SIZE"
  note B = page_rel_bounds [OF R]
  have gs: "get_slot p s = Some ptr" using i B(2) by (simp add: get_slot_Some ptr_def)
  have ip: "in_page ptr SLOT_SIZE" using i B(5) by (simp add: in_page_def ptr_def size_defs)
  from R i d have "slot_rel p ptr None" by (auto simp: page_rel_def ptr_def)
  then have "is_deleted p ptr" by (simp add: slot_rel_def is_deleted_def)
  with gs ip show ?thesis by (simp add: get_record_def)
qed

lemma delete_record_deleted:
  assumes R: "page_rel p sl tot" and i: "unat s < length sl" and d: "sl ! unat s = None"
  shows "delete_record p s = Inl BadSlot"
proof -
  define ptr where "ptr = HEADER_SIZE + unat s * SLOT_SIZE"
  note B = page_rel_bounds [OF R]
  have gs: "get_slot p s = Some ptr" using i B(2) by (simp add: get_slot_Some ptr_def)
  have ip: "in_page ptr SLOT_SIZE" using i B(5) by (simp add: in_page_def ptr_def size_defs)
  from R i d have "slot_rel p ptr None" by (auto simp: page_rel_def ptr_def)
  then have "is_deleted p ptr" by (simp add: slot_rel_def is_deleted_def)
  with gs ip show ?thesis by (simp add: delete_record_def)
qed

lemma get_record_live:
  assumes R: "page_rel p sl tot" and i: "unat s < length sl" and d: "sl ! unat s = Some d"
  shows "\<exists>found. get_record p s = Inr found"
proof -
  from read_record_rel [OF R, of s] i d have "read_record p s = Inr d"
    by (simp add: spec_read_def)
  then show ?thesis
    by (cases "get_record p s") (auto simp: read_record_def)
qed

section \<open>Buffer pool (page\_manager.hpp, page\_manager.cpp)\<close>

type_synonym PageKey = "u32 \<times> u32"

record BufferEntry =
  be_table_id :: u32
  be_page_id :: u32
  be_page :: Page
  be_dirty :: bool

text \<open>
  The two \<open>unordered_map\<close>s are association lists with one entry per key
  (\<open>AList.update\<close> is \<open>m[k] = v\<close>, \<open>AList.delete\<close> is \<open>erase\<close>).  Each node of
  the \<open>std::list\<close> carries an identity, so that an iterator stored in \<open>lru_map_\<close>
  names one node even when a key occurs twice in the list; \<open>next_node\<close> numbers the
  nodes as they are created.  A table file is the list of its pages; \<open>disk_ok\<close> tells
  whether the file system accepts writes.
\<close>

record PageManager =
  max_pages :: nat
  buffer_pool :: "(PageKey \<times> BufferEntry) list"
  lru_list :: "(nat \<times> PageKey) list"
  lru_map :: "(PageKey \<times> nat) list"
  next_node :: nat
  next_page_id :: "(u32 \<times> u32) list"
  files :: "(u32 \<times> Page list) list"
  disk_ok :: bool

definition new_PageManager :: "nat \<Rightarrow> (u32 \<times> Page list) list \<Rightarrow> PageManager" where
  "new_PageManager n fs =
     \<lparr>max_pages = n, buffer_pool = [], lru_list = [], lru_map = [], next_node = 0,
      next_page_id = [], files = fs, disk_ok = True\<rparr>"

definition page_count :: "PageManager \<Rightarrow> nat" where
  "page_count pm = length (buffer_pool pm)"

definition dirty_count :: "PageManager \<Rightarrow> nat" where
  "dirty_count pm = length (filter (\<lambda>(k, e). be_dirty e) (buffer_pool pm))"

text \<open>\<open>lru_list_.push_front(key); lru_map_[key] = lru_list_.begin();\<close>\<close>

definition lru_push_front :: "PageKey \<Rightarrow> PageManager \<Rightarrow> PageManager" where
  "lru_push_front key pm =
     pm\<lparr>lru_list := (next_node pm, key) # lru_list pm,
        lru_map := AList.update key (next_node pm) (lru_map pm),
        next_node := next_node pm + 1\<rparr>"

text \<open>\<open>lru_list_.erase(it)\<close> for the iterator of node \<open>node\<close>.\<close>

definition lru_erase :: "nat \<Rightarrow> PageManager \<Rightarrow> PageManager" where
  "lru_erase node pm = pm\<lparr>lru_list := filter (\<lambda>(i, k). i \<noteq> node) (lru_list pm)\<rparr>"

definition zero_page :: Page where
  "zero_page = replicate PAGE_SIZE 0"

text \<open>Writing page \<open>i\<close> of a file; a write past the end leaves a hole of zero bytes.\<close>

definition file_write :: "Page list \<Rightarrow> nat \<Rightarrow> Page \<Rightarrow> Page list" where
  "file_write f i pg =
     (if i < length f then f[i := pg]
      else f @ replicate (i - length f) zero_page @ [pg])"

definition write_page :: "PageManager \<Rightarrow> u32 \<Rightarrow> u32 \<Rightarrow> Page \<Rightarrow> bool \<times> PageManager" where
  "write_page pm t pid pg =
     (if \<not> disk_ok pm then (False, pm)
      else
        let f = (case map_of (files pm) t of None \<Rightarrow> [] | Some ps \<Rightarrow> ps)
        in (True, pm\<lparr>files := AList.update t (file_write f (unat pid) pg) (files pm)\<rparr>))"

text \<open>
  \<open>evict_page\<close> walks the list from its back to the first node whose key is resident.
\<close>

definition evict_candidate :: "PageManager \<Rightarrow> (nat \<times> PageKey) option" where
  "evict_candidate pm =
     find (\<lambda>(i, k). map_of (buffer_pool pm) k \<noteq> None) (rev (lru_list pm))"

definition evict_page :: "PageManager \<Rightarrow> PageManager" where
  "evict_page pm =
     (if lru_list pm = [] then pm
      else
        case evict_candidate pm of
          None \<Rightarrow> pm
        | Some (node, key) \<Rightarrow>
            (case map_of (buffer_pool pm) key of
               None \<Rightarrow> pm
             | Some e \<Rightarrow>
                 let pm1 = (if be_dirty e
                            then snd (write_page pm (fst key) (snd key) (be_page e))
                            else pm);
                     pm2 = pm1\<lparr>buffer_pool := AList.delete key (buffer_pool pm1),
                              lru_map := AList.delete key (lru_map pm1)\<rparr>
                 in lru_erase node pm2))"

text \<open>
  \<open>while (buffer_pool_.size() >= max_pages_) evict_page();\<close>  The loop need not end:
  \<open>None\<close> is the run that never leaves it.
\<close>

partial_function (option) evict_while :: "PageManager \<Rightarrow> PageManager option" where
  "evict_while pm =
     (if length (buffer_pool pm) \<ge> max_pages pm then evict_while (evict_page pm)
      else Some pm)"

definition pool_insert :: "PageKey \<Rightarrow> Page \<Rightarrow> bool \<Rightarrow> PageManager \<Rightarrow> PageManager" where
  "pool_insert key pg dirty pm =
     lru_push_front key
       (pm\<lparr>buffer_pool :=
             AList.update key
               \<lparr>be_table_id = fst key, be_page_id = snd key, be_page = pg, be_dirty = dirty\<rparr>
               (buffer_pool pm)\<rparr>)"

definition load_page :: "PageManager \<Rightarrow> u32 \<Rightarrow> u32 \<Rightarrow> (bool \<times> PageManager) option" where
  "load_page pm t pid =
     (case evict_while pm of
        None \<Rightarrow> None
      | Some pm1 \<Rightarrow>
          Some (case map_of (files pm1) t of
                  None \<Rightarrow> (False, pm1)
                | Some f \<Rightarrow>
                    if \<not> unat pid < length f then (False, pm1)
                    else if \<not> is_valid (f ! unat pid) then (False, pm1)
                    else (True, pool_insert (t, pid) (f ! unat pid) False pm1)))"

text \<open>
  \<open>get_page\<close> hands out a pointer to the resident page: \<open>Some key\<close> names the entry of
  the pool the pointer refers to, \<open>None\<close> is \<open>nullptr\<close>.
\<close>

definition get_page :: "PageManager \<Rightarrow> u32 \<Rightarrow> u32 \<Rightarrow> (PageKey option \<times> PageManager) option" where
  "get_page pm t pid =
     (let key = (t, pid) in
      case map_of (buffer_pool pm) key of
        Some e \<Rightarrow>
          Some (Some key,
                case map_of (lru_map pm) key of
                  None \<Rightarrow> pm
                | Some node \<Rightarrow> lru_push_front key (lru_erase node pm))
      | None \<Rightarrow>
          (case load_page pm t pid of
             None \<Rightarrow> None
           | Some (False, pm1) \<Rightarrow> Some (None, pm1)
           | Some (True, pm1) \<Rightarrow> Some (Some key, pm1)))"

definition allocate_page :: "PageManager \<Rightarrow> u32 \<Rightarrow> (u32 \<times> PageManager) option" where
  "allocate_page pm t =
     (let page_id = (case map_of (next_page_id pm) t of None \<Rightarrow> 0 | Some v \<Rightarrow> v);
          pm0 = pm\<lparr>next_page_id := AList.update t (page_id + 1) (next_page_id pm)\<rparr>
      in case evict_while pm0 of
           None \<Rightarrow> None
         | Some pm1 \<Rightarrow>
             Some (page_id, pool_insert (t, page_id) (page_init page_id FLAG_LEAF) True pm1))"

text \<open>The page a pointer handed out by \<open>get_page\<close> refers to, and a store through it.\<close>

definition page_at :: "PageManager \<Rightarrow> PageKey \<Rightarrow> Page option" where
  "page_at pm key = map_option be_page (map_of (buffer_pool pm) key)"

definition page_store :: "PageManager \<Rightarrow> PageKey \<Rightarrow> Page \<Rightarrow> PageManager" where
  "page_store pm key pg =
     (case map_of (buffer_pool pm) key of
        None \<Rightarrow> pm
      | Some e \<Rightarrow> pm\<lparr>buffer_pool := AList.update key (e\<lparr>be_page := pg\<rparr>) (buffer_pool pm)\<rparr>)"

definition mark_dirty :: "PageManager \<Rightarrow> u32 \<Rightarrow> u32 \<Rightarrow> PageManager" where
  "mark_dirty pm t pid =
     (case map_of (buffer_pool pm) (t, pid) of
        None \<Rightarrow> pm
      | Some e \<Rightarrow>
          pm\<lparr>buffer_pool :=
               AList.update (t, pid) (e\<lparr>be_dirty := True, be_page := set_dirty (be_page e) True\<rparr>)
                 (buffer_pool pm)\<rparr>)"

definition flush_entry :: "PageKey \<Rightarrow> PageManager \<Rightarrow> bool \<times> PageManager" where
  "flush_entry key pm =
     (case map_of (buffer_pool pm) key of
        None \<Rightarrow> (True, pm)
      | Some e \<Rightarrow>
          if \<not> be_dirty e then (True, pm)
          else
            (case write_page pm (fst key) (snd key) (be_page e) of
               (False, pm1) \<Rightarrow> (False, pm1)
             | (True, pm1) \<Rightarrow>
                 (True,
                  pm1\<lparr>buffer_pool :=
                        AList.update key
                          (e\<lparr>be_dirty := False, be_page := set_dirty (be_page e) False\<rparr>)
                          (buffer_pool pm1)\<rparr>)))"

definition flush_page :: "PageManager \<Rightarrow> u32 \<Rightarrow> u32 \<Rightarrow> bool \<times> PageManager" where
  "flush_page pm t pid = flush_entry (t, pid) pm"

text \<open>\<open>flush_all\<close> visits every entry; the count is of the pages it wrote.\<close>

fun flush_keys :: "PageKey list \<Rightarrow> nat \<Rightarrow> PageManager \<Rightarrow> nat \<times> PageManager" where
  "flush_keys [] n pm = (n, pm)"
| "flush_keys (k # ks) n pm =
     (case map_of (buffer_pool pm) k of
        None \<Rightarrow> flush_keys ks n pm
      | Some e \<Rightarrow>
          if be_dirty e
          then (case flush_entry k pm of
                  (True, pm1) \<Rightarrow> flush_keys ks (n + 1) pm1
                | (False, pm1) \<Rightarrow> flush_keys ks n pm1)
          else flush_keys ks n pm)"

definition flush_all :: "PageManager \<Rightarrow> nat \<times> PageManager" where
  "flush_all pm = flush_keys (map fst (buffer_pool pm)) 0 pm"

text \<open>
  Invariant of the pool: one entry per key, every resident key has a node in the list,
  node identities are unique and older than \<open>next_node\<close>, an iterator kept in
  \<open>lru_map_\<close> names a node of its own key (if the node still exists), and the pool
  holds at most \<open>max_pages\<close> pages.
\<close>

definition lru_inv :: "PageManager \<Rightarrow> bool" where
  "lru_inv pm =
     (distinct (map fst (lru_list pm)) \<and>
      (\<forall>i \<in> fst ` set (lru_list pm). i < next_node pm) \<and>
      (\<forall>k n. map_of (lru_map pm) k = Some n \<longrightarrow>
         n < next_node pm \<and> (\<forall>k'. (n, k') \<in> set (lru_list pm) \<longrightarrow> k' = k)))"

definition pm_inv :: "PageManager \<Rightarrow> bool" where
  "pm_inv pm =
     (distinct (map fst (buffer_pool pm)) \<and>
      fst ` set (buffer_pool pm) \<subseteq> snd ` set (lru_list pm) \<and>
      lru_inv pm \<and>
      length (buffer_pool pm) \<le> max_pages pm)"

text \<open>The page a table file holds for a key.\<close>

definition disk_page :: "PageManager \<Rightarrow> PageKey \<Rightarrow> Page option" where
  "disk_page pm key =
     (case map_of (files pm) (fst key) of
        None \<Rightarrow> None
      | Some f \<Rightarrow> if unat (snd key) < length f then Some (f ! unat (snd key)) else None)"

definition create_table_file :: "PageManager \<Rightarrow> u32 \<Rightarrow> bool \<times> PageManager" where
  "create_table_file pm t =
     (if \<not> disk_ok pm then (False, pm)
      else (True, pm\<lparr>files := AList.update t [] (files pm),
                      next_page_id := AList.update t 0 (next_page_id pm)\<rparr>))"

definition pool_remove :: "PageKey \<Rightarrow> PageManager \<Rightarrow> PageManager" where
  "pool_remove key pm =
     (let pm1 = (case map_of (lru_map pm) key of
                   None \<Rightarrow> pm
                 | Some node \<Rightarrow> (lru_erase node pm)\<lparr>lru_map := AList.delete key (lru_map pm)\<rparr>)
      in pm1\<lparr>buffer_pool := AList.delete key (buffer_pool pm1)\<rparr>)"

definition delete_table_file :: "PageManager \<Rightarrow> u32 \<Rightarrow> bool \<times> PageManager" where
  "delete_table_file pm t =
     (let to_remove = filter (\<lambda>key. fst key = t) (map fst (buffer_pool pm));
          pm1 = fold pool_remove to_remove pm
      in (True, pm1\<lparr>files := AList.delete t (files pm1),
                      next_page_id := AList.delete t (next_page_id pm1)\<rparr>))"

definition close_pm :: "PageManager \<Rightarrow> PageManager" where
  "close_pm pm =
     (let pm1 = fold (\<lambda>(k, e) m. if be_dirty e then snd (write_page m (be_table_id e) (be_page_id e) (be_page e)) else m)
                  (buffer_pool pm) pm
      in pm1\<lparr>buffer_pool := [], lru_list := [], lru_map := []\<rparr>)"

subsection \<open>Eviction shrinks the pool; the eviction loop ends iff \<open>max_pages > 0\<close>\<close>

lemma write_page_frame [simp]:
  "buffer_pool (snd (write_page pm t pid pg)) = buffer_pool pm"
  "lru_list (snd (write_page pm t pid pg)) = lru_list pm"
  "lru_map (snd (write_page pm t pid pg)) = lru_map pm"
  "next_node (snd (write_page pm t pid pg)) = next_node pm"
  "max_pages (snd (write_page pm t pid pg)) = max_pages pm"
  "next_page_id (snd (write_page pm t pid pg)) = next_page_id pm"
  "disk_ok (snd (write_page pm t pid pg)) = disk_ok pm"
  by (simp_all add: write_page_def Let_def)

lemma file_write_read: "file_write f i pg ! i = pg \<and> i < length (file_write f i pg)"
  by (auto simp: file_write_def nth_append)

lemma write_page_disk:
  "disk_ok pm \<Longrightarrow> disk_page (snd (write_page pm t pid pg)) (t, pid) = Some pg"
  by (simp add: write_page_def Let_def disk_page_def update_conv' file_write_read)

lemma length_delete_distinct:
  "distinct (map fst al) \<Longrightarrow> k \<in> fst ` set al \<Longrightarrow> Suc (length (AList.delete k al)) = length al"
proof (induction al)
  case Nil
  then show ?case by simp
next
  case (Cons a al)
  show ?case
  proof (cases "fst a = k")
    case True
    with Cons.prems(1) have "k \<notin> fst ` set al" by auto
    with True show ?thesis by (cases a) simp
  next
    case False
    with Cons show ?thesis by (cases a) auto
  qed
qed

lemma find_Some_mem: "find P xs = Some x \<Longrightarrow> x \<in> set xs \<and> P x"
  by (induction xs) (auto split: if_splits)

lemma evict_candidate_Some:
  assumes "fst ` set (buffer_pool pm) \<subseteq> snd ` set (lru_list pm)" "buffer_pool pm \<noteq> []"
  obtains node key e where "evict_candidate pm = Some (node, key)"
    "(node, key) \<in> set (lru_list pm)" "map_of (buffer_pool pm) key = Some e"
proof -
  from assms(2) obtain k e0 where "(k, e0) \<in> set (buffer_pool pm)"
    by (cases "buffer_pool pm") auto
  then have k: "k \<in> fst ` set (buffer_pool pm)" by force
  then have mk: "map_of (buffer_pool pm) k \<noteq> None"
    by (simp add: map_of_eq_None_iff)
  from k assms(1) obtain i where "(i, k) \<in> set (rev (lru_list pm))" by force
  with mk have "\<exists>x \<in> set (rev (lru_list pm)). (\<lambda>(i, k). map_of (buffer_pool pm) k \<noteq> None) x"
    by blast
  then have "evict_candidate pm \<noteq> None"
    unfolding evict_candidate_def find_None_iff by blast
  then obtain x where x: "evict_candidate pm = Some x" by blast
  obtain node key where nk: "x = (node, key)" by (cases x)
  from x have "x \<in> set (rev (lru_list pm))" "(\<lambda>(i, k). map_of (buffer_pool pm) k \<noteq> None) x"
    unfolding evict_candidate_def by (auto dest: find_Some_mem)
  with nk obtain e where "(node, key) \<in> set (lru_list pm)" "map_of (buffer_pool pm) key = Some e"
    by auto
  with x nk that show thesis by blast
qed

lemma evict_page_frame [simp]:
  "max_pages (evict_page pm) = max_pages pm"
  "next_node (evict_page pm) = next_node pm"
  "next_page_id (evict_page pm) = next_page_id pm"
  "disk_ok (evict_page pm) = disk_ok pm"
  by (auto simp: evict_page_def lru_erase_def Let_def split: option.splits)

lemma lru_inv_push: "lru_inv pm \<Longrightarrow> lru_inv (lru_push_front key pm)"
  unfolding lru_inv_def lru_push_front_def
  by (auto simp: update_conv' less_Suc_eq split: if_splits)

lemma lru_inv_erase: "lru_inv pm \<Longrightarrow> lru_inv (lru_erase node pm)"
  unfolding lru_inv_def lru_erase_def
  by (auto simp: distinct_map_filter)

lemma lru_inv_map_delete: "lru_inv pm \<Longrightarrow> lru_inv (pm\<lparr>lru_map := AList.delete k (lru_map pm)\<rparr>)"
  unfolding lru_inv_def
  by (auto simp: delete_conv' split: if_splits)

lemma lru_inv_cong:
  "lru_list pm' = lru_list pm \<Longrightarrow> lru_map pm' = lru_map pm \<Longrightarrow> next_node pm' = next_node pm \<Longrightarrow>
   lru_inv pm' = lru_inv pm"
  by (simp add: lru_inv_def)

lemma evict_page_shrinks:
  assumes inv: "pm_inv pm" and ne: "buffer_pool pm \<noteq> []"
  shows "Suc (length (buffer_pool (evict_page pm))) = length (buffer_pool pm)"
    and "pm_inv (evict_page pm)"
    and "\<exists>node key e. evict_candidate pm = Some (node, key) \<and>
           map_of (buffer_pool pm) key = Some e \<and>
           map_of (buffer_pool (evict_page pm)) key = None \<and>
           (be_dirty e \<and> disk_ok pm \<longrightarrow> disk_page (evict_page pm) key = Some (be_page e))"
proof -
  from inv have sub: "fst ` set (buffer_pool pm) \<subseteq> snd ` set (lru_list pm)"
    and dk: "distinct (map fst (buffer_pool pm))"
    and li: "lru_inv pm"
    and bound: "length (buffer_pool pm) \<le> max_pages pm"
    by (simp_all add: pm_inv_def)
  from li have dn: "distinct (map fst (lru_list pm))" by (simp add: lru_inv_def)
  from evict_candidate_Some [OF sub ne] obtain node key e where
    c: "evict_candidate pm = Some (node, key)" and m: "(node, key) \<in> set (lru_list pm)"
    and e: "map_of (buffer_pool pm) key = Some e" by blast
  from m have lne: "lru_list pm \<noteq> []" by auto
  define pm1 where "pm1 = (if be_dirty e
                            then snd (write_page pm (fst key) (snd key) (be_page e)) else pm)"
  define pm2 where "pm2 = pm1\<lparr>buffer_pool := AList.delete key (buffer_pool pm1)\<rparr>"
  have ev: "evict_page pm = lru_erase node (pm2\<lparr>lru_map := AList.delete key (lru_map pm2)\<rparr>)"
    using c e lne by (simp add: evict_page_def pm1_def pm2_def Let_def)
  have f1: "buffer_pool pm1 = buffer_pool pm" "lru_list pm1 = lru_list pm"
    "next_node pm1 = next_node pm" "max_pages pm1 = max_pages pm" "lru_map pm1 = lru_map pm"
    by (simp_all add: pm1_def)
  have pool: "buffer_pool (evict_page pm) = AList.delete key (buffer_pool pm)"
    by (simp add: ev lru_erase_def pm2_def f1)
  have lru: "lru_list (evict_page pm) = filter (\<lambda>(i, k). i \<noteq> node) (lru_list pm)"
    by (simp add: ev lru_erase_def pm2_def f1)
  from e have kin: "key \<in> fst ` set (buffer_pool pm)"
    by (metis map_of_eq_None_iff option.distinct(1))
  show len: "Suc (length (buffer_pool (evict_page pm))) = length (buffer_pool pm)"
    using length_delete_distinct [OF dk kin] by (simp add: pool)
  have sub': "fst ` set (buffer_pool (evict_page pm)) \<subseteq> snd ` set (lru_list (evict_page pm))"
  proof
    fix k assume k: "k \<in> fst ` set (buffer_pool (evict_page pm))"
    then have kk: "k \<noteq> key" "k \<in> fst ` set (buffer_pool pm)"
      using delete_notin_dom [of key "buffer_pool pm"] dom_delete_subset [of key "buffer_pool pm"]
      by (auto simp: pool)
    with sub obtain i where i: "(i, k) \<in> set (lru_list pm)" by force
    have "i \<noteq> node"
    proof
      assume "i = node"
      with i m dn have "k = key" by (metis eq_key_imp_eq_value)
      with kk show False by simp
    qed
    with i have "(i, k) \<in> set (lru_list (evict_page pm))" by (simp add: lru)
    then show "k \<in> snd ` set (lru_list (evict_page pm))" by force
  qed
  have "lru_inv pm2" using li lru_inv_cong [of pm2 pm] by (simp add: pm2_def f1)
  then have li': "lru_inv (evict_page pm)"
    unfolding ev by (intro lru_inv_erase lru_inv_map_delete)
  show "pm_inv (evict_page pm)"
    unfolding pm_inv_def
  proof (intro conjI)
    show "distinct (map fst (buffer_pool (evict_page pm)))"
      using dk by (simp add: pool distinct_delete)
    show "fst ` set (buffer_pool (evict_page pm)) \<subseteq> snd ` set (lru_list (evict_page pm))"
      by (rule sub')
    show "lru_inv (evict_page pm)" by (rule li')
    show "length (buffer_pool (evict_page pm)) \<le> max_pages (evict_page pm)"
      using len bound by simp
  qed
  have gone: "map_of (buffer_pool (evict_page pm)) key = None"
    by (simp add: pool delete_conv')
  have "disk_page (evict_page pm) key = Some (be_page e)" if "be_dirty e" "disk_ok pm"
  proof -
    have "files (evict_page pm) = files (snd (write_page pm (fst key) (snd key) (be_page e)))"
      using that by (simp add: ev lru_erase_def pm1_def pm2_def)
    then have "disk_page (evict_page pm) key =
               disk_page (snd (write_page pm (fst key) (snd key) (be_page e))) (fst key, snd key)"
      by (simp add: disk_page_def)
    with write_page_disk [OF that(2), of "fst key" "snd key" "be_page e"] show ?thesis by simp
  qed
  with c e gone show "\<exists>node key e. evict_candidate pm = Some (node, key) \<and>
           map_of (buffer_pool pm) key = Some e \<and>
           map_of (buffer_pool (evict_page pm)) key = None \<and>
           (be_dirty e \<and> disk_ok pm \<longrightarrow> disk_page (evict_page pm) key = Some (be_page e))"
    by blast
qed

lemma evict_while_terminates:
  assumes "pm_inv pm" "1 \<le> max_pages pm"
  shows "\<exists>pm'. evict_while pm = Some pm' \<and> pm_inv pm' \<and>
           length (buffer_pool pm') < max_pages pm' \<and> max_pages pm' = max_pages pm \<and>
           next_node pm' = next_node pm \<and> next_page_id pm' = next_page_id pm"
  using assms
proof (induction "length (buffer_pool pm)" arbitrary: pm rule: less_induct)
  case less
  show ?case
  proof (cases "length (buffer_pool pm) \<ge> max_pages pm")
    case False
    with less.prems show ?thesis by (subst evict_while.simps) simp
  next
    case True
    with less.prems(2) have ne: "buffer_pool pm \<noteq> []" by auto
    note S = evict_page_shrinks(1,2) [OF less.prems(1) ne]
    from S(1) have "length (buffer_pool (evict_page pm)) < length (buffer_pool pm)" by simp
    from less.hyps [OF this S(2)] less.prems(2)
    obtain pm' where "evict_while (evict_page pm) = Some pm'" "pm_inv pm'"
      "length (buffer_pool pm') < max_pages pm'" "max_pages pm' = max_pages pm"
      "next_node pm' = next_node pm" "next_page_id pm' = next_page_id pm"
      by auto
    with True show ?thesis by (subst evict_while.simps) simp
  qed
qed

lemma evict_while_diverges:
  assumes "max_pages pm = 0"
  shows "evict_while pm = None"
proof (rule ccontr)
  assume "evict_while pm \<noteq> None"
  then obtain y where y: "evict_while pm = Some y" by auto
  have "max_pages pm \<noteq> 0"
  proof (rule evict_while.raw_induct [where P = "\<lambda>pm y. max_pages pm \<noteq> 0", OF _ y])
    fix f :: "PageManager \<Rightarrow> PageManager option" and pm y
    assume IH: "\<And>pm y. f pm = Some y \<Longrightarrow> max_pages pm \<noteq> 0"
      and st: "(if max_pages pm \<le> length (buffer_pool pm) then f (evict_page pm) else Some pm) = Some y"
    show "max_pages pm \<noteq> 0"
    proof
      assume z: "max_pages pm = 0"
      with st have "f (evict_page pm) = Some y" by simp
      from IH [OF this] z show False by simp
    qed
  qed
  with assms show False by simp
qed

lemma length_update_le: "length (AList.update k v al) \<le> Suc (length al)"
  by (induction al) auto

lemma pool_insert_inv:
  assumes inv: "pm_inv pm" and room: "length (buffer_pool pm) < max_pages pm"
  shows "pm_inv (pool_insert key pg d pm)"
proof -
  from inv have sub: "fst ` set (buffer_pool pm) \<subseteq> snd ` set (lru_list pm)"
    and dk: "distinct (map fst (buffer_pool pm))"
    and li: "lru_inv pm"
    by (simp_all add: pm_inv_def)
  define e where "e = \<lparr>be_table_id = fst key, be_page_id = snd key, be_page = pg, be_dirty = d\<rparr>"
  define pm1 where "pm1 = pm\<lparr>buffer_pool := AList.update key e (buffer_pool pm)\<rparr>"
  have pi: "pool_insert key pg d pm = lru_push_front key pm1"
    by (simp add: pool_insert_def pm1_def e_def)
  have len: "length (AList.update key e (buffer_pool pm)) \<le> max_pages pm"
    using length_update_le [of key e "buffer_pool pm"] room by linarith
  have "lru_inv pm1" using li lru_inv_cong [of pm1 pm] by (simp add: pm1_def)
  then have li': "lru_inv (lru_push_front key pm1)" by (rule lru_inv_push)
  show ?thesis
    unfolding pi pm_inv_def
  proof (intro conjI)
    show "distinct (map fst (buffer_pool (lru_push_front key pm1)))"
      using dk by (simp add: lru_push_front_def pm1_def distinct_update)
    show "fst ` set (buffer_pool (lru_push_front key pm1)) \<subseteq>
          snd ` set (lru_list (lru_push_front key pm1))"
      using sub by (auto simp: lru_push_front_def pm1_def dom_update simp del: AList.update.simps)
    show "lru_inv (lru_push_front key pm1)" by (rule li')
    show "length (buffer_pool (lru_push_front key pm1)) \<le> max_pages (lru_push_front key pm1)"
      using len by (simp add: lru_push_front_def pm1_def)
  qed
qed

lemma evict_while_count:
  assumes "pm_inv pm" "1 \<le> max_pages pm"
  shows "evict_while pm = Some ((evict_page ^^ (Suc (length (buffer_pool pm)) - max_pages pm)) pm)"
  using assms
proof (induction "length (buffer_pool pm)" arbitrary: pm rule: less_induct)
  case less
  show ?case
  proof (cases "length (buffer_pool pm) \<ge> max_pages pm")
    case False
    then show ?thesis by (subst evict_while.simps) simp
  next
    case True
    with less.prems(2) have ne: "buffer_pool pm \<noteq> []" by auto
    note S = evict_page_shrinks(1,2) [OF less.prems(1) ne]
    from S(1) have lt: "length (buffer_pool (evict_page pm)) < length (buffer_pool pm)" by simp
    from S(1) True have k: "Suc (length (buffer_pool pm)) - max_pages pm =
        Suc (Suc (length (buffer_pool (evict_page pm))) - max_pages pm)"
      by simp
    from less.hyps [OF lt S(2)] less.prems(2)
    have "evict_while (evict_page pm) =
          Some ((evict_page ^^ (Suc (length (buffer_pool (evict_page pm))) - max_pages pm))
                  (evict_page pm))"
      by simp
    with True show ?thesis
      by (subst evict_while.simps) (simp add: k funpow_swap1)
  qed
qed

lemma pm_inv_new: "pm_inv (new_PageManager n fs)"
  by (simp add: pm_inv_def lru_inv_def new_PageManager_def)

lemma pm_inv_next_page_id [simp]: "pm_inv (pm\<lparr>next_page_id := x\<rparr>) = pm_inv pm"
  by (simp add: pm_inv_def lru_inv_def)

lemma pool_insert_max [simp]: "max_pages (pool_insert key pg d pm) = max_pages pm"
  by (simp add: pool_insert_def lru_push_front_def)

lemma allocate_page_ok:
  assumes "pm_inv pm" "1 \<le> max_pages pm"
  shows "\<exists>r pm'. allocate_page pm t = Some (r, pm') \<and> pm_inv pm' \<and>
           page_count pm' \<le> max_pages pm \<and> max_pages pm' = max_pages pm"
proof -
  define pid where "pid = (case map_of (next_page_id pm) t of None \<Rightarrow> 0 | Some v \<Rightarrow> v)"
  define pm0 where "pm0 = pm\<lparr>next_page_id := AList.update t (pid + 1) (next_page_id pm)\<rparr>"
  have i0: "pm_inv pm0" "1 \<le> max_pages pm0" "max_pages pm0 = max_pages pm"
    using assms by (simp_all add: pm0_def)
  from evict_while_terminates [OF i0(1,2)] obtain pm1 where
    e: "evict_while pm0 = Some pm1" and i1: "pm_inv pm1"
    and r: "length (buffer_pool pm1) < max_pages pm1" and m: "max_pages pm1 = max_pages pm0"
    by blast
  define pm2 where "pm2 = pool_insert (t, pid) (page_init pid FLAG_LEAF) True pm1"
  have a: "allocate_page pm t = Some (pid, pm2)"
    using e by (simp add: allocate_page_def Let_def pid_def [symmetric] pm0_def [symmetric] pm2_def)
  have i2: "pm_inv pm2" using pool_insert_inv [OF i1 r] by (simp add: pm2_def)
  have m2: "max_pages pm2 = max_pages pm" using m i0(3) by (simp add: pm2_def)
  from i2 m2 have "page_count pm2 \<le> max_pages pm" by (simp add: pm_inv_def page_count_def)
  with a i2 m2 show ?thesis by blast
qed

lemma lru_touch_inv:
  assumes inv: "pm_inv pm" and it: "map_of (lru_map pm) key = Some node"
  shows "pm_inv (lru_push_front key (lru_erase node pm))"
proof -
  from inv have sub: "fst ` set (buffer_pool pm) \<subseteq> snd ` set (lru_list pm)"
    and dk: "distinct (map fst (buffer_pool pm))"
    and li: "lru_inv pm"
    and bound: "length (buffer_pool pm) \<le> max_pages pm"
    by (simp_all add: pm_inv_def)
  from li it have own: "\<And>k'. (node, k') \<in> set (lru_list pm) \<Longrightarrow> k' = key"
    unfolding lru_inv_def by blast
  have sub': "fst ` set (buffer_pool pm) \<subseteq>
              insert key (snd ` set (filter (\<lambda>(i, k). i \<noteq> node) (lru_list pm)))"
  proof
    fix k assume "k \<in> fst ` set (buffer_pool pm)"
    with sub obtain i where i: "(i, k) \<in> set (lru_list pm)" by force
    show "k \<in> insert key (snd ` set (filter (\<lambda>(i, k). i \<noteq> node) (lru_list pm)))"
    proof (cases "i = node")
      case False
      with i have "(i, k) \<in> set (filter (\<lambda>(i, k). i \<noteq> node) (lru_list pm))" by simp
      then show ?thesis by force
    next
      case True
      with i own have "k = key" by simp
      then show ?thesis by simp
    qed
  qed
  have li': "lru_inv (lru_push_front key (lru_erase node pm))"
    using li by (intro lru_inv_push lru_inv_erase)
  show ?thesis
    unfolding pm_inv_def
  proof (intro conjI)
    show "distinct (map fst (buffer_pool (lru_push_front key (lru_erase node pm))))"
      using dk by (simp add: lru_push_front_def lru_erase_def)
    show "fst ` set (buffer_pool (lru_push_front key (lru_erase node pm))) \<subseteq>
          snd ` set (lru_list (lru_push_front key (lru_erase node pm)))"
      using sub' by (simp add: lru_push_front_def lru_erase_def)
    show "lru_inv (lru_push_front key (lru_erase node pm))" by (rule li')
    show "length (buffer_pool (lru_push_front key (lru_erase node pm))) \<le>
          max_pages (lru_push_front key (lru_erase node pm))"
      using bound by (simp add: lru_push_front_def lru_erase_def)
  qed
qed

lemma load_page_ok:
  assumes "pm_inv pm" "1 \<le> max_pages pm"
  shows "\<exists>r pm'. load_page pm t pid = Some (r, pm') \<and> pm_inv pm' \<and>
           max_pages pm' = max_pages pm"
proof -
  from evict_while_terminates [OF assms] obtain pm1 where
    e: "evict_while pm = Some pm1" and i1: "pm_inv pm1"
    and r: "length (buffer_pool pm1) < max_pages pm1" and m: "max_pages pm1 = max_pages pm"
    by blast
  from pool_insert_inv [OF i1 r] e i1 m show ?thesis
    by (auto simp: load_page_def split: option.splits)
qed

lemma get_page_ok:
  assumes "pm_inv pm" "1 \<le> max_pages pm"
  shows "\<exists>r pm'. get_page pm t pid = Some (r, pm') \<and> pm_inv pm' \<and>
           page_count pm' \<le> max_pages pm \<and> max_pages pm' = max_pages pm"
proof (cases "map_of (buffer_pool pm) (t, pid)")
  case None
  from load_page_ok [OF assms, of t pid] obtain r pm' where
    l: "load_page pm t pid = Some (r, pm')" and i: "pm_inv pm'" and m: "max_pages pm' = max_pages pm"
    by blast
  from i m have "page_count pm' \<le> max_pages pm" by (simp add: pm_inv_def page_count_def)
  with None l i m show ?thesis
    by (cases r) (auto simp: get_page_def Let_def)
next
  case (Some e)
  show ?thesis
  proof (cases "map_of (lru_map pm) (t, pid)")
    case None
    with Some assms show ?thesis
      by (simp add: get_page_def Let_def pm_inv_def page_count_def)
  next
    case (Some node)
    from lru_touch_inv [OF assms(1) Some]
    have i: "pm_inv (lru_push_front (t, pid) (lru_erase node pm))" .
    have m: "max_pages (lru_push_front (t, pid) (lru_erase node pm)) = max_pages pm"
      by (simp add: lru_push_front_def lru_erase_def)
    from i m have "page_count (lru_push_front (t, pid) (lru_erase node pm)) \<le> max_pages pm"
      by (simp add: pm_inv_def page_count_def)
    with \<open>map_of (buffer_pool pm) (t, pid) = Some e\<close> Some i m show ?thesis
      by (simp add: get_page_def Let_def)
  qed
qed

lemma allocate_page_diverges: "max_pages pm = 0 \<Longrightarrow> allocate_page pm t = None"
  by (simp add: allocate_page_def Let_def evict_while_diverges)

lemma get_page_diverges:
  assumes "pm_inv pm" "max_pages pm = 0"
  shows "get_page pm t pid = None"
proof -
  from assms have "buffer_pool pm = []" by (simp add: pm_inv_def)
  with assms(2) show ?thesis
    by (simp add: get_page_def load_page_def evict_while_diverges)
qed

definition one_page_pm :: PageManager where
  "one_page_pm =
     \<lparr>max_pages = 1,
      buffer_pool = [((1, 0), \<lparr>be_table_id = 1, be_page_id = 0,
                                be_page = page_init 0 FLAG_LEAF, be_dirty = True\<rparr>)],
      lru_list = [(0, (1, 0))], lru_map = [((1, 0), 0)], next_node = 1,
      next_page_id = [(1, 1)], files = [], disk_ok = True\<rparr>"

lemma one_page_pm_inv: "pm_inv one_page_pm"
  by (simp add: pm_inv_def lru_inv_def one_page_pm_def)

text \<open>
  C10.  For a page manager whose pool satisfies its invariant (as the constructor
  establishes and every operation keeps) and with \<open>max_pages \<ge> 1\<close>: on a non-empty
  pool \<open>evict_page\<close> removes exactly one resident entry, and a dirty one is on disk
  afterwards; the eviction loop ends after exactly the number of evictions that brings
  the pool below \<open>max_pages\<close>; \<open>allocate_page\<close> and \<open>get_page\<close> return, keep the
  invariant and leave \<open>page_count() \<le> max_pages\<close>.  With \<open>max_pages = 0\<close> neither
  call returns.
\<close>

theorem buffer_pool_termination:
  assumes "pm_inv pm"
  shows "(1 \<le> max_pages pm \<longrightarrow>
           (buffer_pool pm \<noteq> [] \<longrightarrow>
              page_count (evict_page pm) + 1 = page_count pm \<and>
              (\<exists>node key e. evict_candidate pm = Some (node, key) \<and>
                 map_of (buffer_pool pm) key = Some e \<and>
                 map_of (buffer_pool (evict_page pm)) key = None \<and>
                 (be_dirty e \<and> disk_ok pm \<longrightarrow>
                    disk_page (evict_page pm) key = Some (be_page e)))) \<and>
           evict_while pm = Some ((evict_page ^^ (Suc (page_count pm) - max_pages pm)) pm) \<and>
           (\<exists>pm'. evict_while pm = Some pm' \<and> page_count pm' < max_pages pm) \<and>
           (\<exists>r pm'. allocate_page pm t = Some (r, pm') \<and> pm_inv pm' \<and>
              page_count pm' \<le> max_pages pm \<and> max_pages pm' = max_pages pm) \<and>
           (\<exists>r pm'. get_page pm t pid = Some (r, pm') \<and> pm_inv pm' \<and>
              page_count pm' \<le> max_pages pm \<and> max_pages pm' = max_pages pm)) \<and>
         (max_pages pm = 0 \<longrightarrow> allocate_page pm t = None \<and> get_page pm t pid = None)"
proof (intro conjI impI)
  assume ne: "buffer_pool pm \<noteq> []"
  from evict_page_shrinks(1) [OF assms ne]
  show "page_count (evict_page pm) + 1 = page_count pm" by (simp add: page_count_def)
  from evict_page_shrinks(3) [OF assms ne]
  show "\<exists>node key e. evict_candidate pm = Some (node, key) \<and>
                 map_of (buffer_pool pm) key = Some e \<and>
                 map_of (buffer_pool (evict_page pm)) key = None \<and>
                 (be_dirty e \<and> disk_ok pm \<longrightarrow>
                    disk_page (evict_page pm) key = Some (be_page e))" .
next
  assume m: "1 \<le> max_pages pm"
  from evict_while_count [OF assms m]
  show "evict_while pm = Some ((evict_page ^^ (Suc (page_count pm) - max_pages pm)) pm)"
    by (simp add: page_count_def)
  from evict_while_terminates [OF assms m]
  show "\<exists>pm'. evict_while pm = Some pm' \<and> page_count pm' < max_pages pm"
    by (auto simp: page_count_def)
  from allocate_page_ok [OF assms m]
  show "\<exists>r pm'. allocate_page pm t = Some (r, pm') \<and> pm_inv pm' \<and>
              page_count pm' \<le> max_pages pm \<and> max_pages pm' = max_pages pm" .
  from get_page_ok [OF assms m]
  show "\<exists>r pm'. get_page pm t pid = Some (r, pm') \<and> pm_inv pm' \<and>
              page_count pm' \<le> max_pages pm \<and> max_pages pm' = max_pages pm" .
next
  assume z: "max_pages pm = 0"
  show "allocate_page pm t = None" by (rule allocate_page_diverges [OF z])
  show "get_page pm t pid = None" by (rule get_page_diverges [OF assms z])
qed

theorem buffer_pool_termination_witness:
  "pm_inv one_page_pm \<and> 1 \<le> max_pages one_page_pm \<and> buffer_pool one_page_pm \<noteq> [] \<and>
   page_count one_page_pm = 1 \<and> page_count (evict_page one_page_pm) = 0 \<and>
   (\<exists>r pm'. allocate_page one_page_pm 1 = Some (r, pm') \<and> page_count pm' \<le> 1) \<and>
   (\<exists>r pm'. get_page one_page_pm 1 5 = Some (r, pm') \<and> page_count pm' \<le> 1) \<and>
   pm_inv (new_PageManager 0 []) \<and> max_pages (new_PageManager 0 []) = 0 \<and>
   allocate_page (new_PageManager 0 []) 1 = None \<and>
   get_page (new_PageManager 0 []) 1 5 = None"
proof -
  have a: "1 \<le> max_pages one_page_pm" "buffer_pool one_page_pm \<noteq> []"
    "page_count one_page_pm = 1" "max_pages one_page_pm = 1"
    by (simp_all add: one_page_pm_def page_count_def)
  have z: "max_pages (new_PageManager 0 []) = 0" by (simp add: new_PageManager_def)
  from buffer_pool_termination [OF one_page_pm_inv, of 1 5] a
    buffer_pool_termination [OF pm_inv_new, of 0 "[]" 1 5] z
  show ?thesis
    using one_page_pm_inv pm_inv_new [of 0 "[]"] by auto
qed

subsection \<open>Resident pages\<close>

lemma evict_while_room:
  "length (buffer_pool pm) < max_pages pm \<Longrightarrow> evict_while pm = Some pm"
  by (subst evict_while.simps) simp

lemma get_page_resident:
  assumes "page_at pm (t, pid) = Some pg"
  shows "\<exists>pm'. get_page pm t pid = Some (Some (t, pid), pm') \<and>
               buffer_pool pm' = buffer_pool pm \<and> max_pages pm' = max_pages pm \<and>
               files pm' = files pm"
  using assms
  by (auto simp: get_page_def page_at_def Let_def lru_push_front_def lru_erase_def
      split: option.splits)

lemma page_at_stored:
  assumes "page_at pm k = Some pg"
  shows "page_at (mark_dirty (page_store pm k pg') (fst k) (snd k)) k = Some (set_dirty pg' True)"
  using assms
  by (auto simp: page_at_def page_store_def mark_dirty_def update_conv' split: option.splits)

lemma page_at_cong: "buffer_pool pm' = buffer_pool pm \<Longrightarrow> page_at pm' k = page_at pm k"
  by (simp add: page_at_def)


lemma get_page_absent:
  assumes "map_of (buffer_pool pm) (t, pid) = None"
    and "length (buffer_pool pm) < max_pages pm"
    and "map_of (files pm) t = None"
  shows "get_page pm t pid = Some (None, pm)"
  using assms by (simp add: get_page_def load_page_def evict_while_room)

section \<open>Write-ahead log (wal.hpp, wal.cpp)\<close>

definition WAL_MAGIC :: u32 where "WAL_MAGIC = 0x57414C45"

text \<open>\<open>enum class WalRecordType : uint8_t\<close>: a record's type is a byte.\<close>

definition WAL_INVALID :: u8 where "WAL_INVALID = 0"
definition WAL_INSERT :: u8 where "WAL_INSERT = 1"
definition WAL_UPDATE :: u8 where "WAL_UPDATE = 2"
definition WAL_DELETE :: u8 where "WAL_DELETE = 3"
definition WAL_CREATE_TABLE :: u8 where "WAL_CREATE_TABLE = 4"
definition WAL_DROP_TABLE :: u8 where "WAL_DROP_TABLE = 5"
definition WAL_CHECKPOINT :: u8 where "WAL_CHECKPOINT = 6"
definition WAL_COMMIT :: u8 where "WAL_COMMIT = 7"
definition WAL_ROLLBACK :: u8 where "WAL_ROLLBACK = 8"

text \<open>
  \<open>WalRecordHeader\<close>, 32 bytes: lsn 0, length 8, crc32 12, type 16, reserved 17 (three
  bytes), table\_id 20, page\_id 24, slot\_id 28, padding 30.
\<close>

record WalRecordHeader =
  lsn :: u64
  rec_length :: u32
  crc32 :: u32
  rec_type :: u8
  reserved :: "24 word"
  table_id :: u32
  page_id :: u32
  slot_id :: u16
  padding :: u16

record WalRecord =
  header :: WalRecordHeader
  payload :: "u8 list"

definition WAL_HEADER_SIZE :: nat where "WAL_HEADER_SIZE = 32"
definition WAL_FILE_HEADER_SIZE :: nat where "WAL_FILE_HEADER_SIZE = 24"

text \<open>The size of the read buffer of \<open>read_from\<close>, 64 KiB.\<close>

definition READ_BUFFER_SIZE :: nat where "READ_BUFFER_SIZE = 65536"

subsection \<open>CRC32\<close>

definition crc32_step :: "u32 \<Rightarrow> u32" where
  "crc32_step crc = drop_bit 1 crc XOR (0xEDB88320 AND (- (crc AND 1)))"

definition crc32_table :: "u8 \<Rightarrow> u32" where
  "crc32_table i = (crc32_step ^^ 8) (ucast i)"

definition crc32_byte :: "u32 \<Rightarrow> u8 \<Rightarrow> u32" where
  "crc32_byte crc b = crc32_table (ucast ((crc XOR ucast b) AND 0xFF)) XOR drop_bit 8 crc"

definition compute_crc32 :: "u8 list \<Rightarrow> u32" where
  "compute_crc32 d = foldl crc32_byte 0xFFFFFFFF d XOR 0xFFFFFFFF"

definition calculate_crc32 :: "WalRecord \<Rightarrow> u32" where
  "calculate_crc32 r = compute_crc32 (payload r)"

definition wal_is_valid :: "WalRecord \<Rightarrow> bool" where
  "wal_is_valid r = (crc32 (header r) = calculate_crc32 r)"

subsection \<open>Serialisation\<close>

definition header_bytes :: "WalRecordHeader \<Rightarrow> u8 list" where
  "header_bytes h =
     le_enc 8 (uint (lsn h)) @ le_enc 4 (uint (rec_length h)) @ le_enc 4 (uint (crc32 h)) @
     [rec_type h] @ le_enc 3 (uint (reserved h)) @ le_enc 4 (uint (table_id h)) @
     le_enc 4 (uint (page_id h)) @ le_enc 2 (uint (slot_id h)) @ le_enc 2 (uint (padding h))"

definition decode_header :: "u8 list \<Rightarrow> WalRecordHeader" where
  "decode_header d =
     \<lparr>lsn = of_int (rd 8 d 0), rec_length = of_int (rd 4 d 8), crc32 = of_int (rd 4 d 12),
      rec_type = of_int (rd 1 d 16), reserved = of_int (rd 3 d 17),
      table_id = of_int (rd 4 d 20), page_id = of_int (rd 4 d 24),
      slot_id = of_int (rd 2 d 28), padding = of_int (rd 2 d 30)\<rparr>"

definition serialized_size :: "WalRecord \<Rightarrow> nat" where
  "serialized_size r = WAL_HEADER_SIZE + length (payload r)"

text \<open>\<open>serialize\<close> into a buffer of \<open>buffer_size\<close> bytes: \<open>None\<close> is the return value 0.\<close>

definition serialize :: "WalRecord \<Rightarrow> nat \<Rightarrow> u8 list option" where
  "serialize r buffer_size =
     (if buffer_size < serialized_size r then None
      else Some (header_bytes (header r) @ payload r))"

text \<open>
  \<open>deserialize\<close> reads from the bytes \<open>d\<close> (the \<open>length\<close> bytes the caller offers).  It
  returns \<open>false\<close> for \<open>TooShort\<close> and \<open>BadCrc\<close>.  A header length below 32 makes
  \<open>payload_size\<close> wrap around in \<open>size_t\<close>, the length test passes and
  \<open>payload.resize\<close> throws: \<open>ResizeThrows\<close>.
\<close>

datatype wal_error = TooShort | BadCrc | ResizeThrows

definition deserialize :: "u8 list \<Rightarrow> wal_error + WalRecord" where
  "deserialize d =
     (if length d < WAL_HEADER_SIZE then Inl TooShort
      else
        let h = decode_header d in
        if length d < unat (rec_length h) then Inl TooShort
        else if unat (rec_length h) < WAL_HEADER_SIZE then Inl ResizeThrows
        else
          let r = \<lparr>header = h,
                   payload = load_bytes d WAL_HEADER_SIZE (unat (rec_length h) - WAL_HEADER_SIZE)\<rparr>
          in if wal_is_valid r then Inr r else Inl BadCrc)"

subsection \<open>The log file\<close>

text \<open>
  \<open>wal_bytes\<close> is the content of the file, the 24-byte file header first; \<open>wal_io_ok\<close>
  tells whether the stream accepts a write.
\<close>

record Wal =
  wal_bytes :: "u8 list"
  current_lsn :: u64
  wal_is_open :: bool
  wal_io_ok :: bool

definition file_header_bytes :: "u8 list" where
  "file_header_bytes = le_enc 4 (uint WAL_MAGIC) @ le_enc 4 1 @ le_enc 8 1 @ le_enc 8 0"

text \<open>A log as \<open>open\<close> leaves it when it creates the file.\<close>

definition new_Wal :: Wal where
  "new_Wal = \<lparr>wal_bytes = file_header_bytes, current_lsn = 1, wal_is_open = True,
             wal_io_ok = True\<rparr>"

definition stamp :: "u64 \<Rightarrow> WalRecord \<Rightarrow> WalRecord" where
  "stamp l r =
     (let r1 = r\<lparr>header := (header r)\<lparr>lsn := l,
                     rec_length := of_nat (WAL_HEADER_SIZE + length (payload r))\<rparr>\<rparr>
      in r1\<lparr>header := (header r1)\<lparr>crc32 := calculate_crc32 r1\<rparr>\<rparr>)"

text \<open>\<open>append\<close> returns the assigned LSN, or 0 on failure.\<close>

definition append :: "Wal \<Rightarrow> WalRecord \<Rightarrow> u64 \<times> Wal" where
  "append w r =
     (if \<not> wal_is_open w then (0, w)
      else
        let rec = stamp (current_lsn w) r in
        case serialize rec (serialized_size rec) of
          None \<Rightarrow> (0, w)
        | Some bs \<Rightarrow>
            if \<not> wal_io_ok w then (0, w)
            else (current_lsn w,
                  w\<lparr>wal_bytes := wal_bytes w @ bs, current_lsn := current_lsn w + 1\<rparr>))"

text \<open>
  The scan of \<open>read_from\<close> over the bytes that follow the file header.  Every round
  consumes at least the 32 bytes of a record header.
\<close>

function read_records :: "u8 list \<Rightarrow> u64 \<Rightarrow> WalRecord list" where
  "read_records bs start_lsn =
     (if length bs < WAL_HEADER_SIZE then []
      else
        let h = decode_header (take WAL_HEADER_SIZE bs); n = unat (rec_length h) in
        if n < WAL_HEADER_SIZE \<or> n > READ_BUFFER_SIZE then []
        else if length bs < n then []
        else
          (case deserialize (take n bs) of
             Inl e \<Rightarrow> []
           | Inr r \<Rightarrow>
               (if lsn (header r) \<ge> start_lsn then [r] else []) @
               read_records (drop n bs) start_lsn))"
  by pat_completeness auto
termination
  by (relation "measure (\<lambda>(bs, s). length bs)") (auto simp: WAL_HEADER_SIZE_def)

declare read_records.simps [simp del]

text \<open>\<open>read_from\<close> returns \<open>false\<close> on a closed log and leaves \<open>records\<close> as it was.\<close>

definition read_from :: "Wal \<Rightarrow> u64 \<Rightarrow> WalRecord list \<Rightarrow> bool \<times> WalRecord list" where
  "read_from w start_lsn records =
     (if \<not> wal_is_open w then (False, records)
      else (True, read_records (drop WAL_FILE_HEADER_SIZE (wal_bytes w)) start_lsn))"

definition read_all :: "Wal \<Rightarrow> WalRecord list \<Rightarrow> bool \<times> WalRecord list" where
  "read_all w records = read_from w 1 records"

text \<open>A checkpoint record with every field that \<open>append\<close> does not assign at zero.\<close>

definition checkpoint_record :: WalRecord where
  "checkpoint_record =
     \<lparr>header = \<lparr>lsn = 0, rec_length = 0, crc32 = 0, rec_type = WAL_CHECKPOINT, reserved = 0,
                table_id = 0, page_id = 0, slot_id = 0, padding = 0\<rparr>,
      payload = []\<rparr>"

text \<open>
  \<open>Wal::checkpoint\<close> declares its record without initialising it and assigns the type
  and the three identifiers; \<open>append\<close> assigns lsn, length and checksum.  The reserved
  bytes and the padding keep whatever the stack held: they are the arguments \<open>junk3\<close>
  and \<open>junk2\<close>.
\<close>

definition wal_checkpoint :: "24 word \<Rightarrow> u16 \<Rightarrow> Wal \<Rightarrow> u64 \<times> Wal" where
  "wal_checkpoint junk3 junk2 w =
     append w
       \<lparr>header = \<lparr>lsn = 0, rec_length = 0, crc32 = 0, rec_type = WAL_CHECKPOINT,
                  reserved = junk3, table_id = 0, page_id = 0, slot_id = 0, padding = junk2\<rparr>,
        payload = []\<rparr>"

text \<open>Appending a sequence of records, and the records as \<open>append\<close> stamps them.\<close>

fun append_all :: "Wal \<Rightarrow> WalRecord list \<Rightarrow> Wal" where
  "append_all w [] = w"
| "append_all w (r # rs) = append_all (snd (append w r)) rs"

fun stamped :: "u64 \<Rightarrow> WalRecord list \<Rightarrow> WalRecord list" where
  "stamped l [] = []"
| "stamped l (r # rs) = stamp l r # stamped (l + 1) rs"

text \<open>A record as \<open>append\<close> writes it: length and checksum agree with the payload.\<close>

definition well_stamped :: "WalRecord \<Rightarrow> bool" where
  "well_stamped r =
     (WAL_HEADER_SIZE + length (payload r) < 2 ^ 32 \<and>
      unat (rec_length (header r)) = WAL_HEADER_SIZE + length (payload r) \<and>
      crc32 (header r) = compute_crc32 (payload r))"

text \<open>The file cut short by \<open>n\<close> bytes, as a crash in the middle of a write leaves it.\<close>

definition truncate_file :: "nat \<Rightarrow> Wal \<Rightarrow> Wal" where
  "truncate_file n w = w\<lparr>wal_bytes := take (length (wal_bytes w) - n) (wal_bytes w)\<rparr>"

definition sample_record :: "u8 \<Rightarrow> u8 list \<Rightarrow> WalRecord" where
  "sample_record ty pl =
     \<lparr>header = \<lparr>lsn = 0, rec_length = 0, crc32 = 0, rec_type = ty, reserved = 0,
                table_id = 1, page_id = 0, slot_id = 0, padding = 0\<rparr>,
      payload = pl\<rparr>"

subsection \<open>Round trip of one record\<close>

lemma length_header_bytes [simp]: "length (header_bytes h) = 32"
  by (simp add: header_bytes_def)

lemma rd_enc_at:
  "length xs = off \<Longrightarrow> rd k (xs @ le_enc k v @ ys) off = v mod 256 ^ k"
  by (simp add: rd_def load_bytes_def le_dec_enc)

lemma uint_mod_len:
  fixes w :: "'a::len word"
  shows "LENGTH('a) = 8 * k \<Longrightarrow> uint w mod 256 ^ k = uint w"
proof -
  assume "LENGTH('a) = 8 * k"
  moreover have "(256::int) ^ k = (2 ^ 8) ^ k" by simp
  ultimately have "(256::int) ^ k = 2 ^ LENGTH('a)"
    by (simp only: power_mult)
  then show ?thesis using uint_lt2p [of w] by simp
qed

lemma decode_header_bytes: "decode_header (header_bytes h @ rest) = h"
proof -
  define d where "d = header_bytes h @ rest"
  have f1: "rd 8 d 0 = uint (lsn h)"
    using rd_enc_at [of "[]" 0 8 "uint (lsn h)"] uint_mod_len [where w = "lsn h" and k = 8]
    by (simp add: d_def header_bytes_def)
  have f2: "rd 4 d 8 = uint (rec_length h)"
    using rd_enc_at [of "le_enc 8 (uint (lsn h))" 8 4 "uint (rec_length h)"]
      uint_mod_len [where w = "rec_length h" and k = 4]
    by (simp add: d_def header_bytes_def)
  have f3: "rd 4 d 12 = uint (crc32 h)"
    using rd_enc_at [of "le_enc 8 (uint (lsn h)) @ le_enc 4 (uint (rec_length h))" 12 4
        "uint (crc32 h)"] uint_mod_len [where w = "crc32 h" and k = 4]
    by (simp add: d_def header_bytes_def)
  have f4: "rd (Suc 0) d 16 = uint (rec_type h)"
    by (simp add: d_def header_bytes_def rd_def load_bytes_def)
  have f5: "rd 3 d 17 = uint (reserved h)"
    using rd_enc_at [of "le_enc 8 (uint (lsn h)) @ le_enc 4 (uint (rec_length h)) @
        le_enc 4 (uint (crc32 h)) @ [rec_type h]" 17 3 "uint (reserved h)"]
      uint_mod_len [where w = "reserved h" and k = 3]
    by (simp add: d_def header_bytes_def)
  have f6: "rd 4 d 20 = uint (table_id h)"
    using rd_enc_at [of "le_enc 8 (uint (lsn h)) @ le_enc 4 (uint (rec_length h)) @
        le_enc 4 (uint (crc32 h)) @ [rec_type h] @ le_enc 3 (uint (reserved h))" 20 4
        "uint (table_id h)"] uint_mod_len [where w = "table_id h" and k = 4]
    by (simp add: d_def header_bytes_def)
  have f7: "rd 4 d 24 = uint (page_id h)"
    using rd_enc_at [of "le_enc 8 (uint (lsn h)) @ le_enc 4 (uint (rec_length h)) @
        le_enc 4 (uint (crc32 h)) @ [rec_type h] @ le_enc 3 (uint (reserved h)) @
        le_enc 4 (uint (table_id h))" 24 4 "uint (page_id h)"]
      uint_mod_len [where w = "page_id h" and k = 4]
    by (simp add: d_def header_bytes_def)
  have f8: "rd 2 d 28 = uint (slot_id h)"
    using rd_enc_at [of "le_enc 8 (uint (lsn h)) @ le_enc 4 (uint (rec_length h)) @
        le_enc 4 (uint (crc32 h)) @ [rec_type h] @ le_enc 3 (uint (reserved h)) @
        le_enc 4 (uint (table_id h)) @ le_enc 4 (uint (page_id h))" 28 2 "uint (slot_id h)"]
      uint_mod_len [where w = "slot_id h" and k = 2]
    by (simp add: d_def header_bytes_def)
  have f9: "rd 2 d 30 = uint (padding h)"
    using rd_enc_at [of "le_enc 8 (uint (lsn h)) @ le_enc 4 (uint (rec_length h)) @
        le_enc 4 (uint (crc32 h)) @ [rec_type h] @ le_enc 3 (uint (reserved h)) @
        le_enc 4 (uint (table_id h)) @ le_enc 4 (uint (page_id h)) @
        le_enc 2 (uint (slot_id h))" 30 2 "uint (padding h)" rest]
      uint_mod_len [where w = "padding h" and k = 2]
    by (simp add: d_def header_bytes_def)
  show ?thesis
    unfolding d_def [symmetric] decode_header_def
    by (simp add: f1 f2 f3 f4 f5 f6 f7 f8 f9)
qed

definition record_bytes :: "WalRecord \<Rightarrow> u8 list" where
  "record_bytes r = header_bytes (header r) @ payload r"

lemma length_record_bytes [simp]: "length (record_bytes r) = 32 + length (payload r)"
  by (simp add: record_bytes_def)

lemma serialize_fits: "serialize r (serialized_size r) = Some (record_bytes r)"
  by (simp add: serialize_def record_bytes_def)

lemma deserialize_record_bytes:
  assumes "well_stamped r"
  shows "deserialize (record_bytes r) = Inr r"
proof -
  from assms have n: "unat (rec_length (header r)) = 32 + length (payload r)"
    and c: "crc32 (header r) = compute_crc32 (payload r)"
    by (simp_all add: well_stamped_def WAL_HEADER_SIZE_def)
  have h: "decode_header (record_bytes r) = header r"
    by (simp add: record_bytes_def decode_header_bytes)
  have p: "load_bytes (record_bytes r) 32 (length (payload r)) = payload r"
    by (simp add: record_bytes_def load_bytes_def)
  show ?thesis
    using n c by (simp add: deserialize_def h p Let_def WAL_HEADER_SIZE_def wal_is_valid_def
        calculate_crc32_def)
qed

lemma well_stamped_stamp:
  assumes "WAL_HEADER_SIZE + length (payload r) < 2 ^ 32"
  shows "well_stamped (stamp l r)"
proof -
  have "unat (of_nat (WAL_HEADER_SIZE + length (payload r)) :: u32) =
        WAL_HEADER_SIZE + length (payload r)"
    using assms by (subst unat_of_nat) simp
  with assms show ?thesis
    by (simp add: well_stamped_def stamp_def Let_def calculate_crc32_def)
qed

lemma stamp_fields [simp]:
  "payload (stamp l r) = payload r"
  "lsn (header (stamp l r)) = l"
  "rec_type (header (stamp l r)) = rec_type (header r)"
  "table_id (header (stamp l r)) = table_id (header r)"
  "page_id (header (stamp l r)) = page_id (header r)"
  "slot_id (header (stamp l r)) = slot_id (header r)"
  by (simp_all add: stamp_def Let_def)

subsection \<open>Replay of a record stream\<close>

lemma read_records_step:
  assumes ws: "well_stamped r" and fit: "WAL_HEADER_SIZE + length (payload r) \<le> READ_BUFFER_SIZE"
  shows "read_records (record_bytes r @ rest) s =
         (if lsn (header r) \<ge> s then [r] else []) @ read_records rest s"
proof -
  from ws have n: "unat (rec_length (header r)) = 32 + length (payload r)"
    by (simp add: well_stamped_def WAL_HEADER_SIZE_def)
  have t: "take 32 (record_bytes r @ rest) = header_bytes (header r) @ take 0 (payload r @ rest)"
    by (simp add: record_bytes_def)
  have h: "decode_header (take 32 (record_bytes r @ rest)) = header r"
    unfolding t by (rule decode_header_bytes)
  moreover have "take 32 (record_bytes r @ rest) = take 32 (record_bytes r)" by simp
  ultimately have h': "decode_header (take 32 (record_bytes r)) = header r" by simp
  show ?thesis
    using n fit deserialize_record_bytes [OF ws]
    by (subst read_records.simps) (simp add: h h' Let_def WAL_HEADER_SIZE_def READ_BUFFER_SIZE_def)
qed

lemma read_records_cut:
  assumes ws: "well_stamped r" and m: "m < length (record_bytes r)"
  shows "read_records (take m (record_bytes r)) s = []"
proof (cases "m < 32")
  case True
  then show ?thesis
    by (subst read_records.simps) (simp add: WAL_HEADER_SIZE_def)
next
  case False
  from ws have n: "unat (rec_length (header r)) = 32 + length (payload r)"
    by (simp add: well_stamped_def WAL_HEADER_SIZE_def)
  from False have t: "take 32 (take m (record_bytes r)) =
      header_bytes (header r) @ take 0 (payload r)"
    by (simp add: record_bytes_def min_def)
  have h: "decode_header (take 32 (take m (record_bytes r))) = header r"
    unfolding t by (rule decode_header_bytes)
  moreover have "take 32 (take m (record_bytes r)) = take 32 (record_bytes r)"
    using False by (simp add: min_def)
  ultimately have h': "decode_header (take 32 (record_bytes r)) = header r" by simp
  show ?thesis
    using n m False
    by (subst read_records.simps) (simp add: h h' Let_def WAL_HEADER_SIZE_def)
qed

lemma read_records_stream:
  assumes "\<forall>r \<in> set rs. well_stamped r \<and> WAL_HEADER_SIZE + length (payload r) \<le> READ_BUFFER_SIZE"
  shows "read_records (concat (map record_bytes rs) @ rest) s =
         filter (\<lambda>r. lsn (header r) \<ge> s) rs @ read_records rest s"
  using assms
proof (induction rs)
  case Nil
  then show ?case by simp
next
  case (Cons r rs)
  then show ?case
    using read_records_step [of r "concat (map record_bytes rs) @ rest" s] by simp
qed

lemma read_records_Nil [simp]: "read_records [] s = []"
  by (subst read_records.simps) (simp add: WAL_HEADER_SIZE_def)

subsection \<open>Appending\<close>

definition wal_ready :: "Wal \<Rightarrow> bool" where
  "wal_ready w = (wal_is_open w \<and> wal_io_ok w)"

lemma append_ready:
  assumes "wal_ready w"
  shows "append w r =
         (current_lsn w,
          w\<lparr>wal_bytes := wal_bytes w @ record_bytes (stamp (current_lsn w) r),
            current_lsn := current_lsn w + 1\<rparr>)"
  using assms by (simp add: append_def wal_ready_def Let_def serialize_fits)

lemma append_all_ready:
  "wal_ready w \<Longrightarrow>
   append_all w rs =
     w\<lparr>wal_bytes := wal_bytes w @ concat (map record_bytes (stamped (current_lsn w) rs)),
       current_lsn := current_lsn w + of_nat (length rs)\<rparr>"
proof (induction rs arbitrary: w)
  case Nil
  then show ?case by simp
next
  case (Cons r rs)
  define w1 where "w1 = w\<lparr>wal_bytes := wal_bytes w @ record_bytes (stamp (current_lsn w) r),
            current_lsn := current_lsn w + 1\<rparr>"
  have r1: "wal_ready w1" using Cons.prems by (simp add: w1_def wal_ready_def)
  have "append_all w (r # rs) = append_all w1 rs"
    using append_ready [OF Cons.prems] by (simp add: w1_def)
  also have "\<dots> = w1\<lparr>wal_bytes := wal_bytes w1 @ concat (map record_bytes (stamped (current_lsn w1) rs)),
       current_lsn := current_lsn w1 + of_nat (length rs)\<rparr>"
    by (rule Cons.IH [OF r1])
  finally show ?case by (simp add: w1_def add.assoc add.commute)
qed

lemma new_Wal_ready: "wal_ready new_Wal"
  by (simp add: wal_ready_def new_Wal_def)

lemma length_file_header [simp]: "length file_header_bytes = 24"
  by (simp add: file_header_bytes_def)

lemma stamped_props:
  assumes "\<forall>r \<in> set rs. WAL_HEADER_SIZE + length (payload r) \<le> READ_BUFFER_SIZE"
  shows "\<forall>r \<in> set (stamped l rs).
           well_stamped r \<and> WAL_HEADER_SIZE + length (payload r) \<le> READ_BUFFER_SIZE"
  using assms
proof (induction rs arbitrary: l)
  case Nil
  then show ?case by simp
next
  case (Cons r rs)
  from Cons.prems have "WAL_HEADER_SIZE + length (payload r) < 2 ^ 32"
    by (simp add: READ_BUFFER_SIZE_def)
  from well_stamped_stamp [OF this] Cons show ?case by simp
qed

lemma length_stamped [simp]: "length (stamped l rs) = length rs"
  by (induction rs arbitrary: l) simp_all

lemma stamped_snoc: "stamped l (rs @ [r]) = stamped l rs @ [stamp (l + of_nat (length rs)) r]"
  by (induction rs arbitrary: l) (simp_all add: add.assoc add.commute)

lemma stamped_lsn:
  "i < length rs \<Longrightarrow> lsn (header (stamped l rs ! i)) = l + of_nat i"
proof (induction rs arbitrary: l i)
  case Nil
  then show ?case by simp
next
  case (Cons r rs)
  then show ?case by (cases i) (simp_all add: add.assoc add.commute)
qed

lemma read_from_appended:
  assumes "\<forall>r \<in> set rs. WAL_HEADER_SIZE + length (payload r) \<le> READ_BUFFER_SIZE"
  shows "read_from (append_all new_Wal rs) s recs0 =
         (True, filter (\<lambda>r. lsn (header r) \<ge> s) (stamped 1 rs))"
proof -
  have a: "append_all new_Wal rs =
     new_Wal\<lparr>wal_bytes := file_header_bytes @ concat (map record_bytes (stamped 1 rs)),
       current_lsn := 1 + of_nat (length rs)\<rparr>"
    using append_all_ready [OF new_Wal_ready, of rs] by (simp add: new_Wal_def)
  have b: "wal_is_open (append_all new_Wal rs)"
    "drop 24 (wal_bytes (append_all new_Wal rs)) = concat (map record_bytes (stamped 1 rs))"
    by (subst a, simp add: new_Wal_def)+
  from read_records_stream [OF stamped_props [OF assms], of 1 "[]" s]
  show ?thesis
    by (simp add: b read_from_def WAL_FILE_HEADER_SIZE_def)
qed

lemma appended_bytes:
  "wal_is_open (append_all new_Wal rs)"
  "wal_bytes (append_all new_Wal rs) =
     file_header_bytes @ concat (map record_bytes (stamped 1 rs))"
  using append_all_ready [OF new_Wal_ready, of rs] by (simp_all add: new_Wal_def)

lemma truncate_file_fields:
  "wal_bytes (truncate_file n w) = take (length (wal_bytes w) - n) (wal_bytes w)"
  "wal_is_open (truncate_file n w) = wal_is_open w"
  by (simp_all add: truncate_file_def)

lemma truncated_bytes:
  assumes "n \<le> length tail"
  shows "drop 24 (take (length (file_header_bytes @ c0 @ tail) - n) (file_header_bytes @ c0 @ tail)) =
         c0 @ take (length tail - n) tail"
  using assms by simp

lemma stamped_all_ge_one:
  assumes "length rs < 2 ^ 64 - 1"
  shows "filter (\<lambda>r. lsn (header r) \<ge> 1) (stamped 1 rs) = stamped 1 rs"
proof -
  have "lsn (header r) \<ge> 1" if "r \<in> set (stamped 1 rs)" for r
  proof -
    from that obtain i where i: "i < length rs" "r = stamped 1 rs ! i"
      by (auto simp: in_set_conv_nth)
    then have l: "lsn (header r) = 1 + of_nat i" by (simp add: stamped_lsn)
    have "unat (1 + of_nat i :: u64) = 1 + i"
      using i(1) assms by (simp add: unat_word_ariths unat_of_nat)
    then show ?thesis by (simp add: l word_le_nat_alt)
  qed
  then show ?thesis by (simp add: filter_id_conv)
qed

lemma read_from_truncated:
  assumes fit: "\<forall>r \<in> set rs. WAL_HEADER_SIZE + length (payload r) \<le> READ_BUFFER_SIZE"
    and ne: "rs \<noteq> []" and n: "1 \<le> n" "n \<le> serialized_size (last (stamped 1 rs))"
  shows "read_from (truncate_file n (append_all new_Wal rs)) s recs0 =
         (True, filter (\<lambda>r. lsn (header r) \<ge> s) (butlast (stamped 1 rs)))"
proof -
  define S where "S = stamped 1 rs"
  have Sne: "S \<noteq> []" using ne by (cases rs) (simp_all add: S_def)
  define S0 where "S0 = butlast S"
  define l where "l = last S"
  have S: "S = S0 @ [l]" using Sne by (simp add: S0_def l_def)
  have props: "\<forall>r \<in> set S. well_stamped r \<and> WAL_HEADER_SIZE + length (payload r) \<le> READ_BUFFER_SIZE"
    unfolding S_def by (rule stamped_props [OF fit])
  then have p0: "\<forall>r \<in> set S0. well_stamped r \<and> WAL_HEADER_SIZE + length (payload r) \<le> READ_BUFFER_SIZE"
    and pl: "well_stamped l" by (simp_all add: S)
  from n have nl: "n \<le> length (record_bytes l)" "0 < n"
    by (simp_all add: l_def S_def serialized_size_def WAL_HEADER_SIZE_def)
  define m where "m = length (record_bytes l) - n"
  have m: "m < length (record_bytes l)" using nl by (simp add: m_def)
  have bytes: "wal_bytes (append_all new_Wal rs) =
      file_header_bytes @ concat (map record_bytes S0) @ record_bytes l"
    by (simp add: appended_bytes(2) S_def [symmetric] S)
  have b: "drop 24 (wal_bytes (truncate_file n (append_all new_Wal rs))) =
     concat (map record_bytes S0) @ take m (record_bytes l)"
    unfolding truncate_file_fields m_def bytes
    by (rule truncated_bytes [OF nl(1)])
  have o: "wal_is_open (truncate_file n (append_all new_Wal rs))"
    by (simp add: truncate_file_fields appended_bytes(1))
  from read_records_stream [OF p0, of "take m (record_bytes l)" s] read_records_cut [OF pl m, of s]
  show ?thesis
    by (simp add: b o read_from_def WAL_FILE_HEADER_SIZE_def S0_def S_def)
qed

lemma read_records_too_big:
  assumes ws: "well_stamped r" and big: "READ_BUFFER_SIZE < WAL_HEADER_SIZE + length (payload r)"
  shows "read_records (record_bytes r @ rest) s = []"
proof -
  from ws have n: "unat (rec_length (header r)) = 32 + length (payload r)"
    by (simp add: well_stamped_def WAL_HEADER_SIZE_def)
  have t: "take 32 (record_bytes r @ rest) = header_bytes (header r) @ take 0 (payload r @ rest)"
    by (simp add: record_bytes_def)
  have h: "decode_header (take 32 (record_bytes r @ rest)) = header r"
    unfolding t by (rule decode_header_bytes)
  moreover have "take 32 (record_bytes r @ rest) = take 32 (record_bytes r)" by simp
  ultimately have h': "decode_header (take 32 (record_bytes r)) = header r" by simp
  show ?thesis
    using n big
    by (subst read_records.simps) (simp add: h h' Let_def WAL_HEADER_SIZE_def READ_BUFFER_SIZE_def)
qed

text \<open>
  C4 (as amended).  (1) For every WAL record as \<open>append\<close> stamps it (header length =
  32 + payload size, crc32 = CRC of the payload), \<open>deserialize(serialize(r)) = r\<close>.
  (2) For every sequence of records with payloads of at most 65504 bytes appended to a
  new log, \<open>read_from\<close> succeeds and replays exactly the stamped records with
  \<open>lsn \<ge> start_lsn\<close>, in order; \<open>read_all\<close> replays all of them (fewer than
  \<open>2^64 - 1\<close> records).  (3) Cutting at most the bytes of the last record off the end of
  the file yields every record except that one, and \<open>read_from\<close> still succeeds.
\<close>

theorem wal_round_trip:
  shows "(well_stamped r \<longrightarrow>
            (\<exists>bs. serialize r (serialized_size r) = Some bs \<and> deserialize bs = Inr r)) \<and>
         ((\<forall>r \<in> set rs. WAL_HEADER_SIZE + length (payload r) \<le> READ_BUFFER_SIZE) \<longrightarrow>
            read_from (append_all new_Wal rs) s recs0 =
              (True, filter (\<lambda>r. lsn (header r) \<ge> s) (stamped 1 rs)) \<and>
            (length rs < 2 ^ 64 - 1 \<longrightarrow>
               read_all (append_all new_Wal rs) recs0 = (True, stamped 1 rs)) \<and>
            (rs \<noteq> [] \<and> 1 \<le> n \<and> n \<le> serialized_size (last (stamped 1 rs)) \<longrightarrow>
               read_from (truncate_file n (append_all new_Wal rs)) s recs0 =
                 (True, filter (\<lambda>r. lsn (header r) \<ge> s) (butlast (stamped 1 rs)))))"
proof (intro conjI impI)
  assume "well_stamped r"
  from deserialize_record_bytes [OF this] serialize_fits [of r]
  show "\<exists>bs. serialize r (serialized_size r) = Some bs \<and> deserialize bs = Inr r" by blast
next
  assume fit: "\<forall>r \<in> set rs. WAL_HEADER_SIZE + length (payload r) \<le> READ_BUFFER_SIZE"
  show "read_from (append_all new_Wal rs) s recs0 =
        (True, filter (\<lambda>r. lsn (header r) \<ge> s) (stamped 1 rs))"
    by (rule read_from_appended [OF fit])
  show "read_all (append_all new_Wal rs) recs0 = (True, stamped 1 rs)"
    if "length rs < 2 ^ 64 - 1"
    using read_from_appended [OF fit, of 1 recs0] stamped_all_ge_one [OF that]
    by (simp add: read_all_def)
  show "read_from (truncate_file n (append_all new_Wal rs)) s recs0 =
        (True, filter (\<lambda>r. lsn (header r) \<ge> s) (butlast (stamped 1 rs)))"
    if "rs \<noteq> [] \<and> 1 \<le> n \<and> n \<le> serialized_size (last (stamped 1 rs))"
    using read_from_truncated [OF fit, of n s recs0] that by blast
qed

definition two_records :: "WalRecord list" where
  "two_records = [sample_record WAL_INSERT [1, 2, 3], sample_record WAL_DELETE []]"

theorem wal_round_trip_witness:
  "well_stamped (stamp 1 (sample_record WAL_INSERT [1, 2, 3])) \<and>
   (\<exists>bs. serialize (stamp 1 (sample_record WAL_INSERT [1, 2, 3]))
            (serialized_size (stamp 1 (sample_record WAL_INSERT [1, 2, 3]))) = Some bs \<and>
          deserialize bs = Inr (stamp 1 (sample_record WAL_INSERT [1, 2, 3]))) \<and>
   read_all (append_all new_Wal two_records) [] =
     (True, [stamp 1 (sample_record WAL_INSERT [1, 2, 3]), stamp 2 (sample_record WAL_DELETE [])]) \<and>
   read_from (truncate_file 5 (append_all new_Wal two_records)) 1 [] =
     (True, [stamp 1 (sample_record WAL_INSERT [1, 2, 3])])"
proof -
  have ws: "well_stamped (stamp 1 (sample_record WAL_INSERT [1, 2, 3]))"
    by (rule well_stamped_stamp) (simp add: sample_record_def WAL_HEADER_SIZE_def)
  have fit: "\<forall>r \<in> set two_records. WAL_HEADER_SIZE + length (payload r) \<le> READ_BUFFER_SIZE"
    by (simp add: two_records_def sample_record_def WAL_HEADER_SIZE_def READ_BUFFER_SIZE_def)
  have len: "length two_records < 2 ^ 64 - 1" "two_records \<noteq> []"
    "(1::nat) \<le> 5" "5 \<le> serialized_size (last (stamped 1 two_records))"
    by (simp_all add: two_records_def serialized_size_def WAL_HEADER_SIZE_def)
  have ge: "(1::u64) \<le> 1" by simp
  from wal_round_trip [of "stamp 1 (sample_record WAL_INSERT [1, 2, 3])" two_records 1 "[]" 5]
    ws fit len
  show ?thesis
    by (simp add: two_records_def)
qed

text \<open>
  C4 (as stated) fails in each of its three parts.  A checkpoint record that \<open>append\<close>
  has not stamped, with a zeroed header, has header length 0: it serialises to 32 bytes on
  which \<open>deserialize\<close> does not return the record.  A record with a payload of 65505 bytes is
  appended, but \<open>read_all\<close> stops at it, its length exceeding the 64 KiB read buffer.
  Cutting 33 bytes off a log of two 32-byte records loses both records, not only the
  last.
\<close>

theorem wal_round_trip_counterexample:
  "(\<exists>bs. serialize checkpoint_record (serialized_size checkpoint_record) = Some bs \<and>
         deserialize bs \<noteq> Inr checkpoint_record) \<and>
   read_all (append_all new_Wal [sample_record WAL_INSERT (replicate 65505 0)]) [] = (True, []) \<and>
   read_all (truncate_file 33
      (append_all new_Wal [sample_record WAL_COMMIT [], sample_record WAL_COMMIT []])) [] =
     (True, [])"
proof (intro conjI)
  have "decode_header (record_bytes checkpoint_record) = header checkpoint_record"
    by (simp add: record_bytes_def decode_header_bytes)
  then have "deserialize (record_bytes checkpoint_record) = Inl ResizeThrows"
    by (simp add: deserialize_def Let_def WAL_HEADER_SIZE_def checkpoint_record_def)
  with serialize_fits [of checkpoint_record]
  show "\<exists>bs. serialize checkpoint_record (serialized_size checkpoint_record) = Some bs \<and>
         deserialize bs \<noteq> Inr checkpoint_record" by auto
next
  define rs where "rs = [sample_record WAL_INSERT (replicate 65505 0)]"
  define r where "r = stamp 1 (sample_record WAL_INSERT (replicate 65505 0))"
  have ws: "well_stamped r"
    unfolding r_def by (rule well_stamped_stamp) (simp add: sample_record_def WAL_HEADER_SIZE_def)
  have big: "READ_BUFFER_SIZE < WAL_HEADER_SIZE + length (payload r)"
    by (simp add: r_def sample_record_def WAL_HEADER_SIZE_def READ_BUFFER_SIZE_def)
  have st: "stamped 1 rs = [r]" by (simp add: rs_def r_def)
  have b: "drop 24 (wal_bytes (append_all new_Wal rs)) = record_bytes r @ []"
    by (simp add: appended_bytes(2) st)
  have "read_all (append_all new_Wal rs) [] = (True, [])"
    unfolding read_all_def read_from_def WAL_FILE_HEADER_SIZE_def b
    using read_records_too_big [OF ws big, of "[]" 1] appended_bytes(1) [of rs] by simp
  then show "read_all (append_all new_Wal [sample_record WAL_INSERT (replicate 65505 0)]) [] =
             (True, [])"
    by (simp only: rs_def)
next
  define rs where "rs = [sample_record WAL_COMMIT [], sample_record WAL_COMMIT []]"
  define r1 where "r1 = stamp 1 (sample_record WAL_COMMIT [])"
  define r2 where "r2 = stamp 2 (sample_record WAL_COMMIT [])"
  have ws: "well_stamped r1"
    unfolding r1_def by (rule well_stamped_stamp) (simp add: sample_record_def WAL_HEADER_SIZE_def)
  have l: "length (record_bytes r1) = 32" "length (record_bytes r2) = 32"
    by (simp_all add: r1_def r2_def sample_record_def)
  have st: "stamped 1 rs = [r1, r2]" by (simp add: rs_def r1_def r2_def)
  have bytes: "wal_bytes (append_all new_Wal rs) =
      file_header_bytes @ [] @ (record_bytes r1 @ record_bytes r2)"
    by (simp add: appended_bytes(2) st)
  have "drop 24 (wal_bytes (truncate_file 33 (append_all new_Wal rs))) =
        [] @ take (length (record_bytes r1 @ record_bytes r2) - 33) (record_bytes r1 @ record_bytes r2)"
    unfolding truncate_file_fields bytes
    by (rule truncated_bytes) (simp add: l)
  then have b: "drop 24 (wal_bytes (truncate_file 33 (append_all new_Wal rs))) =
        take 31 (record_bytes r1)"
    using l by simp
  have o: "wal_is_open (truncate_file 33 (append_all new_Wal rs))"
    by (simp add: truncate_file_fields appended_bytes(1))
  have "read_all (truncate_file 33 (append_all new_Wal rs)) [] = (True, [])"
    unfolding read_all_def read_from_def WAL_FILE_HEADER_SIZE_def b
    using read_records_cut [OF ws, of 31 1] l o by simp
  then show "read_all (truncate_file 33
      (append_all new_Wal [sample_record WAL_COMMIT [], sample_record WAL_COMMIT []])) [] =
     (True, [])"
    by (simp only: rs_def)
qed

section \<open>Outcomes of a call\<close>

text \<open>
  A call either never returns (\<open>Hang\<close>: the eviction loop of the buffer pool runs for
  ever), has undefined behaviour (\<open>Crash\<close>: an access outside a page, a null or dangling
  pointer), throws (\<open>Throw\<close>), or returns (\<open>Done\<close>).
\<close>

datatype ('x, 'a) run = Hang | Crash | Throw 'x | Done 'a

definition run_bind :: "('x, 'a) run \<Rightarrow> ('a \<Rightarrow> ('x, 'b) run) \<Rightarrow> ('x, 'b) run" where
  "run_bind m f = (case m of Hang \<Rightarrow> Hang | Crash \<Rightarrow> Crash | Throw x \<Rightarrow> Throw x | Done a \<Rightarrow> f a)"

definition of_option :: "'a option \<Rightarrow> ('x, 'a) run" where
  "of_option m = (case m of None \<Rightarrow> Hang | Some a \<Rightarrow> Done a)"

lemma run_bind_simps [simp]:
  "run_bind Hang f = Hang" "run_bind Crash f = Crash" "run_bind (Throw x) f = Throw x"
  "run_bind (Done a) f = f a"
  by (simp_all add: run_bind_def)

lemma of_option_simps [simp]: "of_option None = Hang" "of_option (Some a) = Done a"
  by (simp_all add: of_option_def)

section \<open>Recovery (recovery.hpp, recovery.cpp)\<close>

record RecoveryStats =
  records_processed :: u64
  records_applied :: u64
  records_skipped :: u64
  rec_errors :: u64
  rs_start_lsn :: u64
  rs_end_lsn :: u64

definition empty_stats :: RecoveryStats where
  "empty_stats =
     \<lparr>records_processed = 0, records_applied = 0, records_skipped = 0, rec_errors = 0,
      rs_start_lsn = 0, rs_end_lsn = 0\<rparr>"

definition find_last_checkpoint :: "Wal \<Rightarrow> u64" where
  "find_last_checkpoint w =
     (case read_all w [] of
        (False, rs) \<Rightarrow> 0
      | (True, rs) \<Rightarrow>
          foldl (\<lambda>last_checkpoint r.
                   if rec_type (header r) = WAL_CHECKPOINT then lsn (header r)
                   else last_checkpoint) 0 rs)"

definition needs_recovery :: "Wal \<Rightarrow> bool" where
  "needs_recovery w =
     (case read_from w (find_last_checkpoint w) [] of
        (False, rs) \<Rightarrow> False
      | (True, rs) \<Rightarrow> length rs > 1)"

text \<open>
  The state recovery works on: the buffer pool and the statistics.  The apply functions
  return their \<open>bool\<close> with the state they leave.
\<close>

type_synonym rec_state = "PageManager \<times> RecoveryStats"
type_synonym 'a rec_run = "(exn, 'a \<times> rec_state) run"

definition skip_record :: "RecoveryStats \<Rightarrow> RecoveryStats" where
  "skip_record st = st\<lparr>records_skipped := records_skipped st + 1\<rparr>"

text \<open>The page \<open>apply_insert\<close> works on: the record's page, or a newly allocated one.\<close>

definition insert_target :: "WalRecord \<Rightarrow> PageManager \<Rightarrow> (exn, PageKey option \<times> PageManager) run" where
  "insert_target r pm =
     run_bind (of_option (get_page pm (table_id (header r)) (page_id (header r))))
       (\<lambda>(ptr, pm1).
          case ptr of
            Some k \<Rightarrow> Done (Some k, pm1)
          | None \<Rightarrow>
              run_bind (of_option (allocate_page pm1 (table_id (header r))))
                (\<lambda>(new_page_id, pm2).
                   if new_page_id = 0xFFFFFFFF then Done (None, pm2)
                   else of_option (get_page pm2 (table_id (header r)) new_page_id)))"

definition apply_insert :: "WalRecord \<Rightarrow> rec_state \<Rightarrow> bool rec_run" where
  "apply_insert r s =
     (let (pm, st) = s; h = header r in
      run_bind (insert_target r pm)
        (\<lambda>(ptr, pm1).
           case ptr of
             None \<Rightarrow> Done (False, pm1, st)
           | Some k \<Rightarrow>
               (case page_at pm1 k of
                  None \<Rightarrow> Crash
                | Some pg \<Rightarrow>
                    (case (if slot_id h < slot_count pg then get_record pg (slot_id h)
                           else Inl BadSlot) of
                       Inr found \<Rightarrow> Done (True, pm1, skip_record st)
                     | Inl OutOfBounds \<Rightarrow> Crash
                     | Inl e \<Rightarrow>
                         (case insert_record pg (payload r) (of_nat (length (payload r))) of
                            Inl OutOfBounds \<Rightarrow> Crash
                          | Inl e' \<Rightarrow> Done (False, pm1, st)
                          | Inr (pg1, slot) \<Rightarrow>
                              Done (True,
                                    mark_dirty (page_store pm1 k (set_lsn pg1 (lsn h)))
                                      (table_id h) (page_id h),
                                    st))))))"

definition apply_update :: "WalRecord \<Rightarrow> rec_state \<Rightarrow> bool rec_run" where
  "apply_update r s =
     (let (pm, st) = s; h = header r in
      run_bind (of_option (get_page pm (table_id h) (page_id h)))
        (\<lambda>(ptr, pm1).
           case ptr of
             None \<Rightarrow> Done (False, pm1, st)
           | Some k \<Rightarrow>
               (case page_at pm1 k of
                  None \<Rightarrow> Crash
                | Some pg \<Rightarrow>
                    if page_lsn pg \<ge> lsn h then Done (True, pm1, skip_record st)
                    else
                      (case update_record pg (slot_id h) (payload r) (of_nat (length (payload r))) of
                         Inl OutOfBounds \<Rightarrow> Crash
                       | Inl e \<Rightarrow> Done (False, pm1, st)
                       | Inr pg1 \<Rightarrow>
                           Done (True,
                                 mark_dirty (page_store pm1 k (set_lsn pg1 (lsn h)))
                                   (table_id h) (page_id h),
                                 st)))))"

definition apply_delete :: "WalRecord \<Rightarrow> rec_state \<Rightarrow> bool rec_run" where
  "apply_delete r s =
     (let (pm, st) = s; h = header r in
      run_bind (of_option (get_page pm (table_id h) (page_id h)))
        (\<lambda>(ptr, pm1).
           case ptr of
             None \<Rightarrow> Done (False, pm1, st)
           | Some k \<Rightarrow>
               (case page_at pm1 k of
                  None \<Rightarrow> Crash
                | Some pg \<Rightarrow>
                    if page_lsn pg \<ge> lsn h then Done (True, pm1, skip_record st)
                    else
                      (case delete_record pg (slot_id h) of
                         Inl OutOfBounds \<Rightarrow> Crash
                       | Inl e \<Rightarrow> Done (True, pm1, skip_record st)
                       | Inr pg1 \<Rightarrow>
                           Done (True,
                                 mark_dirty (page_store pm1 k (set_lsn pg1 (lsn h)))
                                   (table_id h) (page_id h),
                                 st)))))"

definition count_result :: "bool \<times> rec_state \<Rightarrow> bool rec_run" where
  "count_result x =
     (case x of
        (success, pm, st) \<Rightarrow>
          Done (True, pm,
                if success then st\<lparr>records_applied := records_applied st + 1\<rparr>
                else st\<lparr>rec_errors := rec_errors st + 1\<rparr>))"

definition apply_record :: "WalRecord \<Rightarrow> rec_state \<Rightarrow> bool rec_run" where
  "apply_record r s =
     (let ty = rec_type (header r) in
      if ty = WAL_INSERT then run_bind (apply_insert r s) count_result
      else if ty = WAL_UPDATE then run_bind (apply_update r s) count_result
      else if ty = WAL_DELETE then run_bind (apply_delete r s) count_result
      else if ty = WAL_CREATE_TABLE \<or> ty = WAL_DROP_TABLE \<or> ty = WAL_COMMIT \<or> ty = WAL_ROLLBACK
      then count_result (True, s)
      else Done (True, fst s, (snd s)\<lparr>rec_errors := rec_errors (snd s) + 1\<rparr>))"

text \<open>The loop of \<open>recover\<close> over the records read; \<open>False\<close> is the aborted recovery.\<close>

fun replay :: "WalRecord list \<Rightarrow> rec_state \<Rightarrow> bool rec_run" where
  "replay [] s = Done (True, s)"
| "replay (r # rs) s =
     (let s1 = (fst s, (snd s)\<lparr>records_processed := records_processed (snd s) + 1\<rparr>) in
      if rec_type (header r) = WAL_CHECKPOINT
      then replay rs (fst s1, skip_record (snd s1))
      else
        run_bind (apply_record r s1)
          (\<lambda>(continue, pm, st).
             if \<not> continue then Done (False, pm, st)
             else replay rs (pm, st\<lparr>rs_end_lsn := lsn (header r)\<rparr>)))"

definition recover :: "Wal \<Rightarrow> PageManager \<Rightarrow> bool rec_run" where
  "recover w pm =
     (let checkpoint_lsn = find_last_checkpoint w;
          st = empty_stats\<lparr>rs_start_lsn := (if checkpoint_lsn > 0 then checkpoint_lsn else 1)\<rparr>
      in case read_from w (rs_start_lsn st) [] of
           (False, rs) \<Rightarrow> Done (False, pm, st)
         | (True, rs) \<Rightarrow>
             run_bind (replay rs (pm, st))
               (\<lambda>(completed, pm1, st1).
                  if \<not> completed then Done (False, pm1, st1)
                  else Done (rec_errors st1 = 0, pm1, st1)))"

section \<open>Recovery: when it is needed\<close>

lemma sample_fits:
  "length pl \<le> 65504 \<Longrightarrow>
   WAL_HEADER_SIZE + length (payload (sample_record ty pl)) \<le> READ_BUFFER_SIZE"
  by (simp add: sample_record_def WAL_HEADER_SIZE_def READ_BUFFER_SIZE_def)

lemma sample_type [simp]:
  "rec_type (header (sample_record ty pl)) = ty"
  "payload (sample_record ty pl) = pl"
  "table_id (header (sample_record ty pl)) = 1"
  "page_id (header (sample_record ty pl)) = 0"
  "slot_id (header (sample_record ty pl)) = 0"
  by (simp_all add: sample_record_def)

definition one_insert_log :: Wal where
  "one_insert_log = append_all new_Wal [sample_record WAL_INSERT [7]]"

text \<open>
  Claim C7.  \<open>needs_recovery\<close> reads the log from the LSN of the last checkpoint and answers
  whether more than one record came back, the one being the checkpoint itself.  A log with
  no checkpoint is read from LSN 0, where no record is the checkpoint: the log that holds
  one INSERT record and no checkpoint has a record after the last checkpoint, and
  \<open>needs_recovery\<close> answers \<open>False\<close>.
\<close>

theorem needs_recovery_single_record:
  "read_all one_insert_log [] = (True, [stamp 1 (sample_record WAL_INSERT [7])]) \<and>
   rec_type (header (stamp 1 (sample_record WAL_INSERT [7]))) \<noteq> WAL_CHECKPOINT \<and>
   find_last_checkpoint one_insert_log = 0 \<and>
   needs_recovery one_insert_log = False"
proof -
  have fit: "\<forall>r \<in> set [sample_record WAL_INSERT [7]].
               WAL_HEADER_SIZE + length (payload r) \<le> READ_BUFFER_SIZE"
    by (simp add: WAL_HEADER_SIZE_def READ_BUFFER_SIZE_def)
  have all: "read_all one_insert_log [] = (True, [stamp 1 (sample_record WAL_INSERT [7])])"
    unfolding read_all_def one_insert_log_def
    by (subst read_from_appended [OF fit]) simp
  have ty: "rec_type (header (stamp 1 (sample_record WAL_INSERT [7]))) \<noteq> WAL_CHECKPOINT"
    by (simp add: WAL_INSERT_def WAL_CHECKPOINT_def)
  have ckpt: "find_last_checkpoint one_insert_log = 0"
    using ty by (simp add: find_last_checkpoint_def all)
  have "read_from one_insert_log 0 [] = (True, [stamp 1 (sample_record WAL_INSERT [7])])"
    unfolding one_insert_log_def
    by (subst read_from_appended [OF fit]) simp
  then have "needs_recovery one_insert_log = False"
    by (simp add: needs_recovery_def ckpt)
  with all ty ckpt show ?thesis by blast
qed

section \<open>Recovery: replaying a log twice\<close>

subsection \<open>The pool during replay\<close>

lemma insert_target_resident:
  assumes "page_at pm (table_id (header r), page_id (header r)) = Some pg"
  shows "\<exists>pm'. insert_target r pm = Done (Some (table_id (header r), page_id (header r)), pm') \<and>
               buffer_pool pm' = buffer_pool pm"
  using get_page_resident [OF assms] by (auto simp: insert_target_def)

lemma insert_target_fresh:
  assumes e: "buffer_pool pm = []" "files pm = []" "next_page_id pm = []" "0 < max_pages pm"
    and p: "page_id (header r) = 0"
  shows "\<exists>pm'. insert_target r pm = Done (Some (table_id (header r), 0), pm') \<and>
               page_at pm' (table_id (header r), 0) = Some (page_init 0 FLAG_LEAF)"
proof -
  define t where "t = table_id (header r)"
  have g: "get_page pm t 0 = Some (None, pm)"
    using e by (simp add: get_page_def load_page_def evict_while_room)
  define pm0 where "pm0 = pm\<lparr>next_page_id := AList.update t (0 + 1) (next_page_id pm)\<rparr>"
  define pm1 where "pm1 = pool_insert (t, 0) (page_init 0 FLAG_LEAF) True pm0"
  have "evict_while pm0 = Some pm0"
    using e by (intro evict_while_room) (simp add: pm0_def)
  then have a: "allocate_page pm t = Some (0, pm1)"
    using e by (simp add: allocate_page_def Let_def pm0_def pm1_def)
  have pa: "page_at pm1 (t, 0) = Some (page_init 0 FLAG_LEAF)"
    by (simp add: pm1_def pool_insert_def lru_push_front_def page_at_def update_conv')
  from get_page_resident [OF pa] obtain pm2
    where g2: "get_page pm1 t 0 = Some (Some (t, 0), pm2)" and b: "buffer_pool pm2 = buffer_pool pm1"
    by blast
  have "insert_target r pm = Done (Some (t, 0), pm2)"
    using g a g2 p by (simp add: insert_target_def t_def [symmetric])
  moreover have "page_at pm2 (t, 0) = Some (page_init 0 FLAG_LEAF)"
    using pa page_at_cong [OF b] by simp
  ultimately show ?thesis by (auto simp: t_def)
qed

lemma apply_insert_at:
  assumes tg: "insert_target r pm = Done (Some k, pm1)"
    and pa: "page_at pm1 k = Some pg"
    and k: "k = (table_id (header r), page_id (header r))"
    and free: "\<not> slot_id (header r) < slot_count pg \<or> get_record pg (slot_id (header r)) = Inl BadSlot"
    and ins: "insert_record pg (payload r) (of_nat (length (payload r))) = Inr (pg1, s)"
  shows "\<exists>pm'. (\<forall>st. apply_insert r (pm, st) = Done (True, pm', st)) \<and>
               page_at pm' k = Some (set_dirty (set_lsn pg1 (lsn (header r))) True)"
proof -
  have "page_at (mark_dirty (page_store pm1 k (set_lsn pg1 (lsn (header r))))
           (table_id (header r)) (page_id (header r))) k =
        Some (set_dirty (set_lsn pg1 (lsn (header r))) True)"
    using page_at_stored [OF pa, of "set_lsn pg1 (lsn (header r))"] by (simp add: k)
  moreover have "\<And>st. apply_insert r (pm, st) =
     Done (True, mark_dirty (page_store pm1 k (set_lsn pg1 (lsn (header r))))
                   (table_id (header r)) (page_id (header r)), st)"
    using tg pa free ins by (auto simp: apply_insert_def Let_def)
  ultimately show ?thesis by blast
qed

lemma apply_delete_applies:
  assumes pa: "page_at pm (table_id (header r), page_id (header r)) = Some pg"
    and l: "page_lsn pg < lsn (header r)"
    and del: "delete_record pg (slot_id (header r)) = Inr pg1"
  shows "\<exists>pm'. (\<forall>st. apply_delete r (pm, st) = Done (True, pm', st)) \<and>
               page_at pm' (table_id (header r), page_id (header r)) =
                 Some (set_dirty (set_lsn pg1 (lsn (header r))) True)"
proof -
  define k where "k = (table_id (header r), page_id (header r))"
  from get_page_resident [OF pa] obtain pm1
    where g: "get_page pm (table_id (header r)) (page_id (header r)) = Some (Some k, pm1)"
      and b: "buffer_pool pm1 = buffer_pool pm"
    by (auto simp: k_def)
  have pa1: "page_at pm1 k = Some pg" using pa page_at_cong [OF b] by (simp add: k_def)
  have "page_at (mark_dirty (page_store pm1 k (set_lsn pg1 (lsn (header r))))
           (table_id (header r)) (page_id (header r))) k =
        Some (set_dirty (set_lsn pg1 (lsn (header r))) True)"
    using page_at_stored [OF pa1, of "set_lsn pg1 (lsn (header r))"] by (simp add: k_def)
  moreover have "\<And>st. apply_delete r (pm, st) =
     Done (True, mark_dirty (page_store pm1 k (set_lsn pg1 (lsn (header r))))
                   (table_id (header r)) (page_id (header r)), st)"
    using g pa1 l del by (simp add: apply_delete_def Let_def not_le [symmetric])
  ultimately show ?thesis by (auto simp: k_def)
qed

lemma apply_delete_skips:
  assumes pa: "page_at pm (table_id (header r), page_id (header r)) = Some pg"
    and l: "page_lsn pg < lsn (header r)"
    and del: "delete_record pg (slot_id (header r)) = Inl BadSlot"
  shows "\<exists>pm'. (\<forall>st. apply_delete r (pm, st) = Done (True, pm', skip_record st)) \<and>
               page_at pm' (table_id (header r), page_id (header r)) = Some pg"
proof -
  define k where "k = (table_id (header r), page_id (header r))"
  from get_page_resident [OF pa] obtain pm1
    where g: "get_page pm (table_id (header r)) (page_id (header r)) = Some (Some k, pm1)"
      and b: "buffer_pool pm1 = buffer_pool pm"
    by (auto simp: k_def)
  have pa1: "page_at pm1 k = Some pg" using pa page_at_cong [OF b] by (simp add: k_def)
  have "\<And>st. apply_delete r (pm, st) = Done (True, pm1, skip_record st)"
    using g pa1 l del by (simp add: apply_delete_def Let_def not_le [symmetric])
  with pa1 show ?thesis by (auto simp: k_def)
qed

subsection \<open>An INSERT followed by the DELETE of the same slot\<close>

definition insert_delete_log :: Wal where
  "insert_delete_log =
     append_all new_Wal [sample_record WAL_INSERT [7], sample_record WAL_DELETE []]"

definition logged_insert :: WalRecord where
  "logged_insert = stamp 1 (sample_record WAL_INSERT [7])"

definition logged_delete :: WalRecord where
  "logged_delete = stamp 2 (sample_record WAL_DELETE [])"

definition fresh_pool :: PageManager where
  "fresh_pool = new_PageManager 4 []"

lemma logged_fields [simp]:
  "rec_type (header logged_insert) = WAL_INSERT"
  "rec_type (header logged_delete) = WAL_DELETE"
  "table_id (header logged_insert) = 1" "table_id (header logged_delete) = 1"
  "page_id (header logged_insert) = 0" "page_id (header logged_delete) = 0"
  "slot_id (header logged_insert) = 0" "slot_id (header logged_delete) = 0"
  "lsn (header logged_insert) = 1" "lsn (header logged_delete) = 2"
  "payload logged_insert = [7]" "payload logged_delete = []"
  by (simp_all add: logged_insert_def logged_delete_def)

lemma insert_delete_log_read:
  "read_from insert_delete_log 1 [] = (True, [logged_insert, logged_delete])"
  "find_last_checkpoint insert_delete_log = 0"
proof -
  have fit: "\<forall>r \<in> set [sample_record WAL_INSERT [7], sample_record WAL_DELETE []].
               WAL_HEADER_SIZE + length (payload r) \<le> READ_BUFFER_SIZE"
    by (simp add: WAL_HEADER_SIZE_def READ_BUFFER_SIZE_def)
  show r: "read_from insert_delete_log 1 [] = (True, [logged_insert, logged_delete])"
    unfolding insert_delete_log_def
    by (subst read_from_appended [OF fit]) (simp add: logged_insert_def logged_delete_def)
  show "find_last_checkpoint insert_delete_log = 0"
    using r
    by (simp add: find_last_checkpoint_def read_all_def WAL_INSERT_def WAL_DELETE_def
        WAL_CHECKPOINT_def)
qed

lemma recover_insert_delete_log:
  "recover insert_delete_log pm =
     run_bind (replay [logged_insert, logged_delete] (pm, empty_stats\<lparr>rs_start_lsn := 1\<rparr>))
       (\<lambda>(completed, pm1, st1).
          if \<not> completed then Done (False, pm1, st1)
          else Done (rec_errors st1 = 0, pm1, st1))"
  by (simp add: recover_def insert_delete_log_read)

text \<open>One pass over the two records, given what the INSERT and the DELETE do.\<close>

lemma replay_insert_delete:
  assumes i: "\<And>st. apply_insert logged_insert (pm, st) = Done (True, pma, st)"
    and d: "\<And>st. apply_delete logged_delete (pma, st) = Done (True, pmb, skp st)"
    and e: "\<And>st. rec_errors (skp st) = rec_errors st"
  shows "\<exists>st'. recover insert_delete_log pm = Done (True, pmb, st') \<and>
               records_skipped st' =
                 records_skipped (skp (empty_stats\<lparr>rs_start_lsn := 1, records_processed := 2,
                    records_applied := 1, rs_end_lsn := 1\<rparr>))"
  using i d e
  by (simp add: recover_insert_delete_log apply_record_def count_result_def WAL_INSERT_def
      WAL_DELETE_def WAL_CHECKPOINT_def WAL_UPDATE_def empty_stats_def)

text \<open>The first pass starts from the empty pool and leaves the page with its slot deleted.\<close>

lemma first_pass:
  "\<exists>pm1 st1 p1. recover insert_delete_log fresh_pool = Done (True, pm1, st1) \<and>
     page_at pm1 (1, 0) = Some p1 \<and> page_rel p1 [None] 1 \<and> page_lsn p1 = 2 \<and>
     records_skipped st1 = 0"
proof -
  have e: "buffer_pool fresh_pool = []" "files fresh_pool = []" "next_page_id fresh_pool = []"
    "0 < max_pages fresh_pool"
    by (simp_all add: fresh_pool_def new_PageManager_def)
  from insert_target_fresh [OF e, of logged_insert] obtain pm0
    where tg: "insert_target logged_insert fresh_pool = Done (Some (1, 0), pm0)"
      and pa0: "page_at pm0 (1, 0) = Some (page_init 0 FLAG_LEAF)"
    by auto
  have R0: "page_rel (page_init 0 FLAG_LEAF) [] 0" by (rule page_rel_init)
  have "spec_accepts [] 0 (InsertRecord [7] 1)"
    by (simp add: spec_accepts_def size_defs)
  from insert_record_accepts [OF R0 this] obtain q1 s1
    where ins: "insert_record (page_init 0 FLAG_LEAF) [7] 1 = Inr (q1, s1)"
    by blast
  have nw: "unat (1 :: u16) + SLOT_SIZE < 65536" by (simp add: size_defs)
  from page_rel_insert(1) [OF R0 nw ins] have R1: "page_rel q1 [Some [7]] 1" by simp
  define a1 where "a1 = set_dirty (set_lsn q1 1) True"
  have Ra: "page_rel a1 [Some [7]] 1"
    unfolding a1_def by (intro page_rel_set_dirty page_rel_set_lsn R1)
  have la: "page_lsn a1 = 1"
    unfolding a1_def using page_rel_bounds(1) [OF R1] by (rule page_lsn_stamped)
  from apply_insert_at [OF tg pa0, of q1 s1] ins obtain pma
    where ai: "\<And>st. apply_insert logged_insert (fresh_pool, st) = Done (True, pma, st)"
      and paa: "page_at pma (1, 0) = Some a1"
    by (auto simp: page_init_fields a1_def)
  have "spec_accepts [Some [7]] 1 (DeleteRecord 0)"
    by (simp add: spec_accepts_def)
  from delete_record_accepts [OF Ra this] obtain q2
    where del: "delete_record a1 0 = Inr q2"
    by blast
  from page_rel_delete [OF Ra del] have R2: "page_rel q2 [None] 1" by simp
  define b1 where "b1 = set_dirty (set_lsn q2 2) True"
  have Rb: "page_rel b1 [None] 1"
    unfolding b1_def by (intro page_rel_set_dirty page_rel_set_lsn R2)
  have lb: "page_lsn b1 = 2"
    unfolding b1_def using page_rel_bounds(1) [OF R2] by (rule page_lsn_stamped)
  from apply_delete_applies [of pma logged_delete a1 q2] paa la del obtain pmb
    where ad: "\<And>st. apply_delete logged_delete (pma, st) = Done (True, pmb, st)"
      and pab: "page_at pmb (1, 0) = Some b1"
    by (auto simp: b1_def)
  from replay_insert_delete [of fresh_pool pma pmb "\<lambda>st. st", OF ai ad] obtain st1
    where "recover insert_delete_log fresh_pool = Done (True, pmb, st1)"
      and "records_skipped st1 = 0"
    by (auto simp: empty_stats_def)
  with pab Rb lb show ?thesis by blast
qed

text \<open>
  A pass that finds the page with slot 0 deleted and LSN 2: the INSERT finds no live
  record in slot 0 and inserts again, into slot 1, and sets the page LSN back to 1; the
  DELETE then passes the LSN guard and finds slot 0 deleted already.
\<close>

lemma second_pass:
  assumes pa: "page_at pm (1, 0) = Some p1" and R: "page_rel p1 [None] 1"
  shows "\<exists>pm2 st2 p2. recover insert_delete_log pm = Done (True, pm2, st2) \<and>
     page_at pm2 (1, 0) = Some p2 \<and> page_rel p2 [None, Some [7]] 2 \<and> page_lsn p2 = 1 \<and>
     records_skipped st2 = 1"
proof -
  from insert_target_resident [of pm logged_insert p1] pa obtain pm0
    where tg: "insert_target logged_insert pm = Done (Some (1, 0), pm0)"
      and b0: "buffer_pool pm0 = buffer_pool pm"
    by auto
  have pa0: "page_at pm0 (1, 0) = Some p1" using pa page_at_cong [OF b0] by simp
  have gone: "get_record p1 0 = Inl BadSlot"
    using get_record_deleted [OF R, of 0] by simp
  have "spec_accepts [None] 1 (InsertRecord [7] 1)"
    by (simp add: spec_accepts_def size_defs)
  from insert_record_accepts [OF R this] obtain q1 s1
    where ins: "insert_record p1 [7] 1 = Inr (q1, s1)"
    by blast
  have nw: "unat (1 :: u16) + SLOT_SIZE < 65536" by (simp add: size_defs)
  from page_rel_insert(1) [OF R nw ins] have R1: "page_rel q1 [None, Some [7]] 2"
    by (simp add: numeral_2_eq_2)
  define a1 where "a1 = set_dirty (set_lsn q1 1) True"
  have Ra: "page_rel a1 [None, Some [7]] 2"
    unfolding a1_def by (intro page_rel_set_dirty page_rel_set_lsn R1)
  have la: "page_lsn a1 = 1"
    unfolding a1_def using page_rel_bounds(1) [OF R1] by (rule page_lsn_stamped)
  from apply_insert_at [OF tg pa0, of q1 s1] ins gone obtain pma
    where ai: "\<And>st. apply_insert logged_insert (pm, st) = Done (True, pma, st)"
      and paa: "page_at pma (1, 0) = Some a1"
    by (auto simp: a1_def)
  have del: "delete_record a1 0 = Inl BadSlot"
    using delete_record_deleted [OF Ra, of 0] by simp
  from apply_delete_skips [of pma logged_delete a1] paa la del obtain pmb
    where ad: "\<And>st. apply_delete logged_delete (pma, st) = Done (True, pmb, skip_record st)"
      and pab: "page_at pmb (1, 0) = Some a1"
    by auto
  from replay_insert_delete [of pm pma pmb skip_record, OF ai ad] obtain st2
    where "recover insert_delete_log pm = Done (True, pmb, st2)"
      and "records_skipped st2 = 1"
    by (auto simp: empty_stats_def skip_record_def)
  with pab Ra la show ?thesis by blast
qed

text \<open>
  Claim C3.  Recovery of the log that holds the INSERT of a record into slot 0 and the
  DELETE of that slot, run twice: the first pass leaves the page with one slot, deleted; the
  second pass does not skip the INSERT (slot 0 holds no live record) and applies it again,
  so the page ends with two slots, the record live in slot 1, and page LSN 1.  The page
  state after two passes is not the state after one.
\<close>

theorem recover_twice_differs:
  "\<exists>pm1 st1 pm2 st2 p1 p2.
     recover insert_delete_log fresh_pool = Done (True, pm1, st1) \<and>
     recover insert_delete_log pm1 = Done (True, pm2, st2) \<and>
     page_at pm1 (1, 0) = Some p1 \<and> page_at pm2 (1, 0) = Some p2 \<and>
     slot_count p1 = 1 \<and> read_record p1 0 = Inl BadSlot \<and> page_lsn p1 = 2 \<and>
     slot_count p2 = 2 \<and> read_record p2 1 = Inr [7] \<and> page_lsn p2 = 1 \<and>
     records_skipped st2 = 1 \<and> p1 \<noteq> p2"
proof -
  from first_pass obtain pm1 st1 p1
    where r1: "recover insert_delete_log fresh_pool = Done (True, pm1, st1)"
      and pa1: "page_at pm1 (1, 0) = Some p1" and R1: "page_rel p1 [None] 1"
      and l1: "page_lsn p1 = 2"
    by blast
  from second_pass [OF pa1 R1] obtain pm2 st2 p2
    where r2: "recover insert_delete_log pm1 = Done (True, pm2, st2)"
      and pa2: "page_at pm2 (1, 0) = Some p2" and R2: "page_rel p2 [None, Some [7]] 2"
      and l2: "page_lsn p2 = 1" and sk: "records_skipped st2 = 1"
    by blast
  have "unat (slot_count p1) = 1" using page_rel_bounds(2) [OF R1] by simp
  then have c1: "slot_count p1 = 1" by (simp add: word_unat_eq_iff)
  have "unat (slot_count p2) = 2" using page_rel_bounds(2) [OF R2] by simp
  then have c2: "slot_count p2 = 2" by (simp add: word_unat_eq_iff)
  have rd1: "read_record p1 0 = Inl BadSlot"
    by (simp add: read_record_rel [OF R1] spec_read_def)
  have rd2: "read_record p2 1 = Inr [7]"
    by (simp add: read_record_rel [OF R2] spec_read_def)
  from l1 l2 have ne: "p1 \<noteq> p2" by auto
  from r1 r2 pa1 pa2 c1 c2 rd1 rd2 l1 l2 sk ne show ?thesis by blast
qed

section \<open>Catalog (catalog.hpp, planner.cpp)\<close>

datatype ColumnType = NULLTYPE | CT_INTEGER | CT_FLOAT | CT_TEXT | CT_BLOB | CT_BOOLEAN

record ColumnInfo =
  col_name :: string
  col_type :: ColumnType
  col_not_null :: bool
  col_primary_key :: bool
  col_index :: u32

record TableInfo =
  tbl_id :: u32
  tbl_name :: string
  columns :: "ColumnInfo list"
  row_count :: u64

text \<open>
  \<open>tables_by_id_\<close> holds pointers to the objects \<open>tables_by_name_\<close> owns: a pointer is
  the name under which the object is stored.
\<close>

record Catalog =
  tables_by_name :: "(string \<times> TableInfo) list"
  tables_by_id :: "(u32 \<times> string) list"
  next_table_id :: u32

definition get_table :: "Catalog \<Rightarrow> string \<Rightarrow> TableInfo option" where
  "get_table cat name = map_of (tables_by_name cat) name"

definition get_table_by_id :: "Catalog \<Rightarrow> u32 \<Rightarrow> TableInfo option" where
  "get_table_by_id cat i =
     (case map_of (tables_by_id cat) i of
        None \<Rightarrow> None
      | Some ptr \<Rightarrow> map_of (tables_by_name cat) ptr)"

definition table_exists :: "Catalog \<Rightarrow> string \<Rightarrow> bool" where
  "table_exists cat name = (map_of (tables_by_name cat) name \<noteq> None)"

definition create_table :: "Catalog \<Rightarrow> string \<Rightarrow> ColumnInfo list \<Rightarrow> u32 \<times> Catalog" where
  "create_table cat name cols =
     (if map_of (tables_by_name cat) name \<noteq> None then (0, cat)
      else
        let i = next_table_id cat;
            tbl = \<lparr>tbl_id = i, tbl_name = name,
                   columns = map (\<lambda>(k, c). c\<lparr>col_index := of_nat k\<rparr>) (enumerate 0 cols),
                   row_count = 0\<rparr>
        in (i, cat\<lparr>tables_by_name := AList.update name tbl (tables_by_name cat),
                   tables_by_id := AList.update i name (tables_by_id cat),
                   next_table_id := i + 1\<rparr>))"

definition drop_table :: "Catalog \<Rightarrow> string \<Rightarrow> bool \<times> Catalog" where
  "drop_table cat name =
     (case map_of (tables_by_name cat) name of
        None \<Rightarrow> (False, cat)
      | Some t \<Rightarrow>
          (True, cat\<lparr>tables_by_id := AList.delete (tbl_id t) (tables_by_id cat),
                     tables_by_name := AList.delete name (tables_by_name cat)\<rparr>))"

section \<open>Plans (plan.hpp)\<close>

text \<open>
  The executor never looks into an expression: the plan is parametric in the type \<open>'e\<close>
  of expressions.  A \<open>unique_ptr\<close> is an \<open>option\<close>.  A plan node carries its type tag
  and its variant, which need not agree.
\<close>

datatype PlanNodeType =
  TABLE_SCAN | INDEX_SCAN | FILTER | PROJECT | SORT | LIMIT | AGGREGATE | INSERT
  | CREATE_TABLE | DROP_TABLE

record 'e ColumnDef =
  cd_name :: string
  cd_type :: string
  cd_not_null :: bool
  cd_primary_key :: bool
  cd_default_value :: "'e option"

datatype 'e PlanNode = PlanNode (plan_type: PlanNodeType) (node: "'e PlanVariant")
and 'e PlanVariant =
    TableScanNode u32 string "u32 list"
  | FilterNode "'e PlanNode option" "'e option"
  | ProjectNode "'e PlanNode option" "'e list" "string list"
  | SortNode "'e PlanNode option" "'e list" "bool list"
  | LimitNode "'e PlanNode option" int int
  | AggregateNode "'e PlanNode option" "'e list"
  | InsertNode u32 string "string list" "'e list list"
  | CreateTableNode string "'e ColumnDef list" bool
  | DropTableNode string bool

section \<open>Executor (executor.hpp, executor.cpp)\<close>

text \<open>
  An \<open>int64_t\<close> is the integer it denotes; a \<open>double\<close> is its bit pattern (no function of
  the executor computes with it).
\<close>

datatype Literal = NULL_VAL | INTEGER int | FLOAT u64 | STRING string | BOOLEAN bool

record ResultRow =
  row_values :: "Literal list"

record ExecutionResult =
  success :: bool
  error :: string
  column_names :: "string list"
  rows :: "ResultRow list"
  rows_affected :: u64
  result_stats :: ExecutionStats

definition new_ExecutionResult :: ExecutionResult where
  "new_ExecutionResult =
     \<lparr>success = False, error = [], column_names = [], rows = [], rows_affected = 0,
      result_stats = \<lparr>instructions_executed = 0, rows_scanned = 0, rows_returned = 0,
                      memory_used = 0, elapsed_time = 0\<rparr>\<rparr>"

text \<open>
  What a query runs on: the execution context, the buffer pool and the catalog the
  executor refers to, and the steady clock, given by its successive readings
  (\<open>ex_reads\<close> counts the readings taken).
\<close>

record World =
  ex_ctx :: ExecutionContext
  ex_pages :: PageManager
  ex_catalog :: Catalog
  ex_clock :: "nat \<Rightarrow> int"
  ex_reads :: nat

text \<open>A throw carries the world as the throw leaves it.\<close>

type_synonym 'a exec = "(exn \<times> World, 'a) run"

definition on_ctx :: "(ExecutionContext \<Rightarrow> ExecutionContext) \<Rightarrow> World \<Rightarrow> World" where
  "on_ctx f w = w\<lparr>ex_ctx := f (ex_ctx w)\<rparr>"

definition clock_now :: "World \<Rightarrow> int" where
  "clock_now w = ex_clock w (ex_reads w)"

definition clock_read :: "World \<Rightarrow> World" where
  "clock_read w = w\<lparr>ex_reads := ex_reads w + 1\<rparr>"

text \<open>\<open>ctx.check_budget()\<close>: the clock is read when the context is started and not aborted.\<close>

definition ctx_check_budget :: "World \<Rightarrow> World exec" where
  "ctx_check_budget w =
     (let w1 = (if started (ex_ctx w) \<and> \<not> aborted (ex_ctx w) then clock_read w else w)
      in case check_budget (clock_now w) (ex_ctx w) of
           Inl (e, c) \<Rightarrow> Throw (e, w1\<lparr>ex_ctx := c\<rparr>)
         | Inr c \<Rightarrow> Done (w1\<lparr>ex_ctx := c\<rparr>))"

text \<open>A loop that never ends is a call that never returns.\<close>

definition loop_result :: "('x, 'a) run option \<Rightarrow> ('x, 'a) run" where
  "loop_result r = (case r of None \<Rightarrow> Hang | Some x \<Rightarrow> x)"

subsection \<open>Operators\<close>

text \<open>
  An operator object is split in two: the members fixed at construction (type
  \<open>Operator\<close>) and the members that \<open>open\<close> and \<open>next\<close> assign (type \<open>OpState\<close>).
  \<open>next\<close> returns \<open>Some row\<close> for \<open>true\<close> with the row it wrote, \<open>None\<close> for \<open>false\<close>.
  The schema pointer of a table scan is the table information it pointed to when the
  operator was built; the page pointer names the entry of the pool.
\<close>

datatype 'e Operator =
    TableScanOperator u32 string "TableInfo option"
  | FilterOperator "'e Operator option" "'e option"
  | LimitOperator "'e Operator option" int int
  | SortOperator "'e Operator option" "nat list" "bool list"

record ScanState =
  current_page :: u32
  current_slot :: u16
  page_ptr :: "PageKey option"

datatype 'c LimitState =
  LimitState (lim_child: 'c) (skipped: int) (returned: int)

datatype 'c SortState =
  SortState (sort_child: 'c) (buffer: "ResultRow list") (current_row: nat) (materialized: bool)

datatype OpState =
    ScanSt ScanState
  | FilterSt OpState
  | LimitSt "OpState LimitState"
  | SortSt "OpState SortState"

type_synonym 'c next_fn = "'c \<Rightarrow> World \<Rightarrow> (ResultRow option \<times> 'c \<times> World) exec"

text \<open>\<open>std::sort\<close> is the library's: the model takes it as a parameter.\<close>

type_synonym sorter = "(ResultRow \<Rightarrow> ResultRow \<Rightarrow> bool) \<Rightarrow> ResultRow list \<Rightarrow> ResultRow list"

definition map_state :: "('c \<Rightarrow> 'd) \<Rightarrow> ('a \<times> 'c \<times> World) exec \<Rightarrow> ('a \<times> 'd \<times> World) exec" where
  "map_state f r =
     (case r of
        Hang \<Rightarrow> Hang | Crash \<Rightarrow> Crash | Throw x \<Rightarrow> Throw x
      | Done (a, c, w) \<Rightarrow> Done (a, f c, w))"

subsubsection \<open>TableScanOperator\<close>

definition scan_open :: "u32 \<Rightarrow> World \<Rightarrow> (ScanState \<times> World) exec" where
  "scan_open tid w =
     (case get_page (ex_pages w) tid 0 of
        None \<Rightarrow> Hang
      | Some (ptr, pm1) \<Rightarrow>
          Done (\<lparr>current_page = 0, current_slot = 0, page_ptr = ptr\<rparr>,
                on_ctx (record_instructions 10) (w\<lparr>ex_pages := pm1\<rparr>)))"

definition null_row :: "TableInfo option \<Rightarrow> ResultRow" where
  "null_row schema =
     \<lparr>row_values = (case schema of None \<Rightarrow> []
                                | Some t \<Rightarrow> replicate (length (columns t)) NULL_VAL)\<rparr>"

text \<open>The two nested loops of \<open>next\<close>.\<close>

partial_function (option) scan_loop ::
  "u32 \<Rightarrow> TableInfo option \<Rightarrow> ScanState \<Rightarrow> World \<Rightarrow>
   (ResultRow option \<times> ScanState \<times> World) exec option" where
  "scan_loop tid schema st w =
     (case page_ptr st of
        None \<Rightarrow> Some (Done (None, st, w))
      | Some key \<Rightarrow>
          (case page_at (ex_pages w) key of
             None \<Rightarrow> Some Crash
           | Some page \<Rightarrow>
               if current_slot st < slot_count page
               then
                 (case get_record page (current_slot st) of
                    Inr found \<Rightarrow>
                      Some (Done (Some (null_row schema),
                                  st\<lparr>current_slot := current_slot st + 1\<rparr>,
                                  on_ctx (record_instructions 5) (on_ctx record_row_scanned w)))
                  | Inl e \<Rightarrow>
                      if e = OutOfBounds then Some Crash
                      else scan_loop tid schema (st\<lparr>current_slot := current_slot st + 1\<rparr>) w)
               else
                 (case get_page (ex_pages w) tid (current_page st + 1) of
                    None \<Rightarrow> None
                  | Some (ptr, pm1) \<Rightarrow>
                      scan_loop tid schema
                        (st\<lparr>current_page := current_page st + 1, current_slot := 0,
                            page_ptr := ptr\<rparr>)
                        (on_ctx (record_instructions 10) (w\<lparr>ex_pages := pm1\<rparr>)))))"

definition scan_next :: "u32 \<Rightarrow> TableInfo option \<Rightarrow> ScanState next_fn" where
  "scan_next tid schema st w =
     loop_result (scan_loop tid schema st (on_ctx (record_instructions 1) w))"

subsubsection \<open>FilterOperator\<close>

definition evaluate_predicate :: "ResultRow \<Rightarrow> bool" where
  "evaluate_predicate row = True"

partial_function (option) filter_loop ::
  "'c next_fn \<Rightarrow> 'e option \<Rightarrow> 'c \<Rightarrow> World \<Rightarrow> (ResultRow option \<times> 'c \<times> World) exec option"
  where
  "filter_loop nxt predicate c w =
     (case nxt c w of
        Hang \<Rightarrow> Some Hang
      | Crash \<Rightarrow> Some Crash
      | Throw x \<Rightarrow> Some (Throw x)
      | Done (r, c1, w1) \<Rightarrow>
          (case r of
             None \<Rightarrow> Some (Done (None, c1, w1))
           | Some row \<Rightarrow>
               if predicate = None \<or> evaluate_predicate row
               then Some (Done (Some row, c1, on_ctx (record_instructions 5) w1))
               else filter_loop nxt predicate c1 (on_ctx (record_instructions 5) w1)))"

definition filter_next :: "'c next_fn \<Rightarrow> 'e option \<Rightarrow> 'c next_fn" where
  "filter_next nxt predicate c w = loop_result (filter_loop nxt predicate c w)"

subsubsection \<open>LimitOperator\<close>

text \<open>The loop that skips the offset rows; \<open>None\<close> in the result is the \<open>return false\<close>.\<close>

function skip_loop ::
  "'c next_fn \<Rightarrow> int \<Rightarrow> 'c LimitState \<Rightarrow> World \<Rightarrow> (bool \<times> 'c LimitState \<times> World) exec"
  where
  "skip_loop nxt offset st w =
     (if skipped st < offset
      then
        (case nxt (lim_child st) w of
           Hang \<Rightarrow> Hang
         | Crash \<Rightarrow> Crash
         | Throw x \<Rightarrow> Throw x
         | Done (r, c1, w1) \<Rightarrow>
             (case r of
                None \<Rightarrow> Done (False, LimitState c1 (skipped st) (returned st), w1)
              | Some row \<Rightarrow>
                  skip_loop nxt offset (LimitState c1 (skipped st + 1) (returned st))
                    (on_ctx (record_instructions 1) w1)))
      else Done (True, st, w))"
  by pat_completeness auto

termination
  by (relation "measure (\<lambda>(nxt, offset, st, w). nat (offset - skipped st))") auto

declare skip_loop.simps [simp del]

definition limit_next :: "'c next_fn \<Rightarrow> int \<Rightarrow> int \<Rightarrow> 'c LimitState next_fn" where
  "limit_next nxt limit offset st w =
     run_bind (skip_loop nxt offset st w)
       (\<lambda>(continue, st1, w1).
          if \<not> continue then Done (None, st1, w1)
          else if limit \<ge> 0 \<and> returned st1 \<ge> limit then Done (None, st1, w1)
          else
            run_bind (nxt (lim_child st1) w1)
              (\<lambda>(r, c2, w2).
                 case r of
                   None \<Rightarrow> Done (None, LimitState c2 (skipped st1) (returned st1), w2)
                 | Some row \<Rightarrow>
                     Done (Some row, LimitState c2 (skipped st1) (returned st1 + 1),
                           on_ctx record_row_returned w2)))"

subsubsection \<open>SortOperator\<close>

text \<open>
  The comparator handed to \<open>std::sort\<close>, from key \<open>i\<close> on.  \<open>build_operator\<close> makes
  \<open>sort_columns_\<close> and \<open>ascending_\<close> of one length.
\<close>

function sort_less_from :: "nat \<Rightarrow> nat list \<Rightarrow> bool list \<Rightarrow> ResultRow \<Rightarrow> ResultRow \<Rightarrow> bool" where
  "sort_less_from i sort_columns ascending a b =
     (if i < length sort_columns
      then
        let col = sort_columns ! i in
        if col \<ge> length (row_values a) \<or> col \<ge> length (row_values b)
        then sort_less_from (i + 1) sort_columns ascending a b
        else
          (case (row_values a ! col, row_values b ! col) of
             (INTEGER x, INTEGER y) \<Rightarrow>
               if x \<noteq> y then (if ascending ! i then x < y else x > y)
               else sort_less_from (i + 1) sort_columns ascending a b
           | _ \<Rightarrow> sort_less_from (i + 1) sort_columns ascending a b)
      else False)"
  by pat_completeness auto

termination
  by (relation "measure (\<lambda>(i, sort_columns, ascending, a, b). length sort_columns - i)") auto

declare sort_less_from.simps [simp del]

definition sort_less :: "nat list \<Rightarrow> bool list \<Rightarrow> ResultRow \<Rightarrow> ResultRow \<Rightarrow> bool" where
  "sort_less sort_columns ascending a b = sort_less_from 0 sort_columns ascending a b"

text \<open>The loop that materialises the rows of the child.\<close>

partial_function (option) drain_loop ::
  "'c next_fn \<Rightarrow> 'c SortState \<Rightarrow> World \<Rightarrow> ('c SortState \<times> World) exec option" where
  "drain_loop nxt st w =
     (case nxt (sort_child st) w of
        Hang \<Rightarrow> Some Hang
      | Crash \<Rightarrow> Some Crash
      | Throw x \<Rightarrow> Some (Throw x)
      | Done (r, c1, w1) \<Rightarrow>
          (case r of
             None \<Rightarrow>
               Some (Done (SortState c1 (buffer st) (current_row st) (materialized st), w1))
           | Some temp \<Rightarrow>
               (case ctx_check_budget (on_ctx (record_instructions 2) w1) of
                  Hang \<Rightarrow> Some Hang
                | Crash \<Rightarrow> Some Crash
                | Throw x \<Rightarrow> Some (Throw x)
                | Done w2 \<Rightarrow>
                    drain_loop nxt
                      (SortState c1 (buffer st @ [temp]) (current_row st) (materialized st)) w2)))"

definition materialize :: "sorter \<Rightarrow> 'c next_fn \<Rightarrow> nat list \<Rightarrow> bool list \<Rightarrow> 'c SortState \<Rightarrow> World \<Rightarrow>
    ('c SortState \<times> World) exec" where
  "materialize std_sort nxt sort_columns ascending st w =
     run_bind (loop_result (drain_loop nxt st w))
       (\<lambda>(st1, w1).
          let sorted = std_sort (sort_less sort_columns ascending) (buffer st1) in
          Done (SortState (sort_child st1) sorted (current_row st1) True,
                on_ctx (record_instructions (of_nat (length sorted) * 10)) w1))"

text \<open>
  \<open>row = std::move(buffer_[current_row_])\<close> hands the row out and leaves the element of
  the buffer moved-from, its vector of values empty.
\<close>

definition moved_from :: ResultRow where
  "moved_from = \<lparr>row_values = []\<rparr>"

definition sort_next :: "sorter \<Rightarrow> 'c next_fn \<Rightarrow> nat list \<Rightarrow> bool list \<Rightarrow> 'c SortState next_fn" where
  "sort_next std_sort nxt sort_columns ascending st w =
     run_bind (if \<not> materialized st then materialize std_sort nxt sort_columns ascending st w
               else Done (st, w))
       (\<lambda>(st1, w1).
          if current_row st1 < length (buffer st1)
          then Done (Some (buffer st1 ! current_row st1),
                     SortState (sort_child st1) ((buffer st1)[current_row st1 := moved_from])
                       (current_row st1 + 1) (materialized st1),
                     w1)
          else Done (None, st1, w1))"

subsubsection \<open>The operator tree\<close>

text \<open>A call through a null \<open>child_\<close> is a crash.\<close>

fun op_open :: "'e Operator \<Rightarrow> World \<Rightarrow> (OpState \<times> World) exec" where
  "op_open (TableScanOperator tid name schema) w =
     run_bind (scan_open tid w) (\<lambda>(s, w1). Done (ScanSt s, w1))"
| "op_open (FilterOperator child predicate) w =
     (case child of
        None \<Rightarrow> Crash
      | Some ch \<Rightarrow> run_bind (op_open ch w) (\<lambda>(c, w1). Done (FilterSt c, w1)))"
| "op_open (LimitOperator child limit offset) w =
     (case child of
        None \<Rightarrow> Crash
      | Some ch \<Rightarrow>
          run_bind (op_open ch w)
            (\<lambda>(c, w1). Done (LimitSt (LimitState c 0 0), w1)))"
| "op_open (SortOperator child sort_columns ascending) w =
     (case child of
        None \<Rightarrow> Crash
      | Some ch \<Rightarrow>
          run_bind (op_open ch w)
            (\<lambda>(c, w1).
               Done (SortSt (SortState c [] 0 False), w1)))"

fun op_next :: "sorter \<Rightarrow> 'e Operator \<Rightarrow> OpState next_fn" where
  "op_next std_sort (TableScanOperator tid name schema) st w =
     (case st of
        ScanSt s \<Rightarrow> map_state ScanSt (scan_next tid schema s w)
      | _ \<Rightarrow> Crash)"
| "op_next std_sort (FilterOperator child predicate) st w =
     (case child of
        None \<Rightarrow> Crash
      | Some ch \<Rightarrow>
          (case st of
             FilterSt c \<Rightarrow> map_state FilterSt (filter_next (op_next std_sort ch) predicate c w)
           | _ \<Rightarrow> Crash))"
| "op_next std_sort (LimitOperator child limit offset) st w =
     (case child of
        None \<Rightarrow> Crash
      | Some ch \<Rightarrow>
          (case st of
             LimitSt s \<Rightarrow> map_state LimitSt (limit_next (op_next std_sort ch) limit offset s w)
           | _ \<Rightarrow> Crash))"
| "op_next std_sort (SortOperator child sort_columns ascending) st w =
     (case child of
        None \<Rightarrow> Crash
      | Some ch \<Rightarrow>
          (case st of
             SortSt s \<Rightarrow>
               map_state SortSt
                 (sort_next std_sort (op_next std_sort ch) sort_columns ascending s w)
           | _ \<Rightarrow> Crash))"

text \<open>\<open>None\<close> is the crash of a call through a null child.\<close>

fun op_column_names :: "'e Operator \<Rightarrow> string list option" where
  "op_column_names (TableScanOperator tid name schema) =
     Some (case schema of None \<Rightarrow> [] | Some t \<Rightarrow> map col_name (columns t))"
| "op_column_names (FilterOperator child predicate) =
     (case child of None \<Rightarrow> None | Some ch \<Rightarrow> op_column_names ch)"
| "op_column_names (LimitOperator child limit offset) =
     (case child of None \<Rightarrow> None | Some ch \<Rightarrow> op_column_names ch)"
| "op_column_names (SortOperator child sort_columns ascending) =
     (case child of None \<Rightarrow> None | Some ch \<Rightarrow> op_column_names ch)"

subsection \<open>Executor\<close>

text \<open>\<open>None\<close> is \<open>nullptr\<close>.\<close>

fun build_operator :: "Catalog \<Rightarrow> 'e PlanNode \<Rightarrow> 'e Operator option" where
  "build_operator cat (PlanNode ty v) =
     (case ty of
        TABLE_SCAN \<Rightarrow>
          (case v of
             TableScanNode tid name cols \<Rightarrow>
               Some (TableScanOperator tid name (get_table_by_id cat tid))
           | _ \<Rightarrow> None)
      | FILTER \<Rightarrow>
          (case v of
             FilterNode (Some child) predicate \<Rightarrow>
               Some (FilterOperator (build_operator cat child) predicate)
           | _ \<Rightarrow> None)
      | LIMIT \<Rightarrow>
          (case v of
             LimitNode (Some child) limit offset \<Rightarrow>
               Some (LimitOperator (build_operator cat child) limit offset)
           | _ \<Rightarrow> None)
      | SORT \<Rightarrow>
          (case v of
             SortNode (Some child) sort_keys ascending \<Rightarrow>
               Some (SortOperator (build_operator cat child) [0 ..< length ascending] ascending)
           | _ \<Rightarrow> None)
      | _ \<Rightarrow> None)"

partial_function (option) select_loop ::
  "'c next_fn \<Rightarrow> 'c \<Rightarrow> World \<Rightarrow> ResultRow list \<Rightarrow> (ResultRow list \<times> World) exec option" where
  "select_loop nxt c w acc =
     (case nxt c w of
        Hang \<Rightarrow> Some Hang
      | Crash \<Rightarrow> Some Crash
      | Throw x \<Rightarrow> Some (Throw x)
      | Done (r, c1, w1) \<Rightarrow>
          (case r of
             None \<Rightarrow> Some (Done (acc, w1))
           | Some row \<Rightarrow>
               (case ctx_check_budget w1 of
                  Hang \<Rightarrow> Some Hang
                | Crash \<Rightarrow> Some Crash
                | Throw x \<Rightarrow> Some (Throw x)
                | Done w2 \<Rightarrow> select_loop nxt c1 w2 (acc @ [row]))))"

definition execute_select :: "sorter \<Rightarrow> 'e PlanNode \<Rightarrow> World \<Rightarrow> (ExecutionResult \<times> World) exec" where
  "execute_select std_sort plan w =
     (case build_operator (ex_catalog w) plan of
        None \<Rightarrow> Done (new_ExecutionResult\<lparr>error := ''Failed to build operator tree''\<rparr>, w)
      | Some op \<Rightarrow>
          run_bind (op_open op w)
            (\<lambda>(st, w1).
               case op_column_names op of
                 None \<Rightarrow> Crash
               | Some names \<Rightarrow>
                   run_bind (loop_result (select_loop (op_next std_sort op) st w1 []))
                     (\<lambda>(rs, w2).
                        Done (new_ExecutionResult\<lparr>column_names := names, rows := rs,
                                success := True\<rparr>, w2))))"

definition execute_insert ::
  "string \<Rightarrow> 'e list list \<Rightarrow> World \<Rightarrow> (ExecutionResult \<times> World) exec" where
  "execute_insert table_name vals w =
     (case get_table (ex_catalog w) table_name of
        None \<Rightarrow> Done (new_ExecutionResult\<lparr>error := ''Table not found: '' @ table_name\<rparr>, w)
      | Some table \<Rightarrow>
          Done (new_ExecutionResult\<lparr>rows_affected := of_nat (length vals), success := True\<rparr>,
                on_ctx (record_instructions (of_nat (length vals) * 20)) w))"

definition column_type_of :: "string \<Rightarrow> ColumnType" where
  "column_type_of ty =
     (if ty = ''INTEGER'' then CT_INTEGER
      else if ty = ''TEXT'' then CT_TEXT
      else if ty = ''FLOAT'' then CT_FLOAT
      else if ty = ''BOOLEAN'' then CT_BOOLEAN
      else if ty = ''BLOB'' then CT_BLOB
      else CT_TEXT)"

definition execute_create_table ::
  "string \<Rightarrow> 'e ColumnDef list \<Rightarrow> bool \<Rightarrow> World \<Rightarrow> (ExecutionResult \<times> World) exec" where
  "execute_create_table table_name cols if_not_exists w =
     (if \<not> if_not_exists \<and> table_exists (ex_catalog w) table_name
      then Done (new_ExecutionResult\<lparr>error := ''Table already exists: '' @ table_name\<rparr>, w)
      else
        let infos = map (\<lambda>col. \<lparr>col_name = cd_name col, col_type = column_type_of (cd_type col),
                                 col_not_null = cd_not_null col,
                                 col_primary_key = cd_primary_key col, col_index = 0\<rparr>) cols;
            (table_id, cat1) = create_table (ex_catalog w) table_name infos;
            w1 = w\<lparr>ex_catalog := cat1\<rparr>
        in if table_id = 0 \<and> \<not> if_not_exists
           then Done (new_ExecutionResult\<lparr>error := ''Failed to create table''\<rparr>, w1)
           else Done (new_ExecutionResult\<lparr>success := True\<rparr>,
                      on_ctx (record_instructions 100) w1))"

definition execute_drop_table ::
  "string \<Rightarrow> bool \<Rightarrow> World \<Rightarrow> (ExecutionResult \<times> World) exec" where
  "execute_drop_table table_name if_exists w =
     (if \<not> table_exists (ex_catalog w) table_name
      then
        (if \<not> if_exists
         then Done (new_ExecutionResult\<lparr>error := ''Table not found: '' @ table_name\<rparr>, w)
         else Done (new_ExecutionResult\<lparr>success := True\<rparr>, on_ctx (record_instructions 50) w))
      else
        Done (new_ExecutionResult\<lparr>success := True\<rparr>,
              on_ctx (record_instructions 50)
                (w\<lparr>ex_catalog := snd (drop_table (ex_catalog w) table_name)\<rparr>)))"

definition what :: "exn \<Rightarrow> string" where
  "what e = (case e of RuntimeError msg \<Rightarrow> msg)"

text \<open>The \<open>switch\<close> of \<open>execute\<close>, inside the \<open>try\<close>.\<close>

definition dispatch :: "sorter \<Rightarrow> 'e PlanNode \<Rightarrow> World \<Rightarrow> (ExecutionResult \<times> World) exec" where
  "dispatch std_sort plan w =
     (case plan_type plan of
        TABLE_SCAN \<Rightarrow> execute_select std_sort plan w
      | FILTER \<Rightarrow> execute_select std_sort plan w
      | PROJECT \<Rightarrow> execute_select std_sort plan w
      | SORT \<Rightarrow> execute_select std_sort plan w
      | LIMIT \<Rightarrow> execute_select std_sort plan w
      | AGGREGATE \<Rightarrow> execute_select std_sort plan w
      | INSERT \<Rightarrow>
          (case node plan of
             InsertNode tid name cols vals \<Rightarrow> execute_insert name vals w
           | _ \<Rightarrow> Done (new_ExecutionResult, w))
      | CREATE_TABLE \<Rightarrow>
          (case node plan of
             CreateTableNode name cols if_not_exists \<Rightarrow>
               execute_create_table name cols if_not_exists w
           | _ \<Rightarrow> Done (new_ExecutionResult, w))
      | DROP_TABLE \<Rightarrow>
          (case node plan of
             DropTableNode name if_exists \<Rightarrow> execute_drop_table name if_exists w
           | _ \<Rightarrow> Done (new_ExecutionResult, w))
      | INDEX_SCAN \<Rightarrow> Done (new_ExecutionResult\<lparr>error := ''Unsupported plan type''\<rparr>, w))"

definition finish :: "ExecutionResult \<Rightarrow> World \<Rightarrow> ExecutionResult \<times> World" where
  "finish result w =
     (let c = finalize (clock_now w) (ex_ctx w);
          w1 = (if started (ex_ctx w) then clock_read w else w)
      in (result\<lparr>result_stats := stats c\<rparr>, w1\<lparr>ex_ctx := c\<rparr>))"

text \<open>
  \<open>execute\<close> catches every exception; what is left is the run that never returns and the
  crash.
\<close>

definition execute :: "sorter \<Rightarrow> 'e PlanNode \<Rightarrow> World \<Rightarrow> (ExecutionResult \<times> World) exec" where
  "execute std_sort plan w0 =
     (let w = clock_read (on_ctx (start (clock_now w0)) w0) in
      case dispatch std_sort plan w of
        Hang \<Rightarrow> Hang
      | Crash \<Rightarrow> Crash
      | Throw (e, w1) \<Rightarrow> Done (finish (new_ExecutionResult\<lparr>success := False, error := what e\<rparr>) w1)
      | Done (result, w1) \<Rightarrow> Done (finish result w1))"

section \<open>Executor: the row limit\<close>

lemma on_ctx_fields [simp]:
  "ex_pages (on_ctx f w) = ex_pages w"
  "ex_catalog (on_ctx f w) = ex_catalog w"
  "ex_clock (on_ctx f w) = ex_clock w"
  "ex_reads (on_ctx f w) = ex_reads w"
  "ex_ctx (on_ctx f w) = f (ex_ctx w)"
  by (simp_all add: on_ctx_def)

lemma loop_result_Some [simp]: "loop_result (Some r) = r"
  by (simp add: loop_result_def)

lemma scan_next_row:
  assumes ptr: "page_ptr st = Some key"
    and pa: "page_at (ex_pages w) key = Some page"
    and R: "page_rel page sl tot"
    and i: "unat (current_slot st) < length sl"
    and d: "sl ! unat (current_slot st) = Some d"
  shows "scan_next tid schema st w =
         Done (Some (null_row schema), st\<lparr>current_slot := current_slot st + 1\<rparr>,
               on_ctx (record_instructions 5)
                 (on_ctx record_row_scanned (on_ctx (record_instructions 1) w)))"
proof -
  have lt: "current_slot st < slot_count page"
    using i page_rel_bounds(2) [OF R] by (simp add: word_less_nat_alt)
  from get_record_live [OF R i d] obtain found
    where g: "get_record page (current_slot st) = Inr found"
    by blast
  show ?thesis
    unfolding scan_next_def
    by (subst scan_loop.simps) (simp add: ptr pa lt g)
qed

lemma scan_next_end:
  assumes ptr: "page_ptr st = Some key"
    and pa: "page_at (ex_pages w) key = Some page"
    and e: "\<not> current_slot st < slot_count page"
    and g: "get_page (ex_pages w) tid (current_page st + 1) = Some (None, pm1)"
  shows "scan_next tid schema st w =
         Done (None,
               st\<lparr>current_page := current_page st + 1, current_slot := 0, page_ptr := None\<rparr>,
               on_ctx (record_instructions 10) ((on_ctx (record_instructions 1) w)\<lparr>ex_pages := pm1\<rparr>))"
  unfolding scan_next_def
  by (subst scan_loop.simps, simp add: ptr pa e g, subst scan_loop.simps, simp)

text \<open>A table of one page with two records, resident in a pool of four pages.\<close>

definition two_rows_ops :: "page_op list" where
  "two_rows_ops = [InsertRecord [1] 1, InsertRecord [2] 1]"

definition two_rows_pool :: PageManager where
  "two_rows_pool =
     (case run_ops (page_init 0 FLAG_LEAF) two_rows_ops of
        Inl e \<Rightarrow> new_PageManager 4 []
      | Inr page \<Rightarrow> pool_insert (1, 0) page True (new_PageManager 4 []))"

definition new_Catalog :: Catalog where
  "new_Catalog = \<lparr>tables_by_name = [], tables_by_id = [], next_table_id = 1\<rparr>"

definition scan_catalog :: Catalog where
  "scan_catalog =
     snd (create_table new_Catalog ''t''
            [\<lparr>col_name = ''a'', col_type = CT_INTEGER, col_not_null = False,
              col_primary_key = False, col_index = 0\<rparr>])"

definition small_budget_ctx :: ExecutionContext where
  "small_budget_ctx =
     \<lparr>budget = \<lparr>max_memory_bytes = 1000, max_instructions = 1000, max_time = 30000,
                max_result_rows = 1\<rparr>,
      allocator = \<lparr>memory_limit = 1000, bytes_used = 0\<rparr>,
      stats = \<lparr>instructions_executed = 0, rows_scanned = 0, rows_returned = 0,
               memory_used = 0, elapsed_time = 0\<rparr>,
      start_time = 0, started = False, aborted = False, violation = NONE\<rparr>"

definition scan_world :: World where
  "scan_world =
     \<lparr>ex_ctx = small_budget_ctx, ex_pages = two_rows_pool, ex_catalog = scan_catalog,
      ex_clock = (\<lambda>n. 0), ex_reads = 0\<rparr>"

definition scan_plan :: "unit PlanNode" where
  "scan_plan = PlanNode TABLE_SCAN (TableScanNode 1 ''t'' [])"

lemma two_rows_page:
  "\<exists>page. run_ops (page_init 0 FLAG_LEAF) two_rows_ops = Inr page \<and>
          page_rel page [Some [1], Some [2]] 2"
proof -
  have sr: "spec_run [] 0 two_rows_ops"
    by (simp add: two_rows_ops_def spec_accepts_def spec_step_def inserted_len_def size_defs)
  from run_ops_accepts [OF page_rel_init sr] obtain page
    where r: "run_ops (page_init 0 FLAG_LEAF) two_rows_ops = Inr page"
    by blast
  from run_ops_rel [OF page_rel_init r spec_run_no_wrap [OF sr]]
  have "page_rel page [Some [1], Some [2]] 2"
    by (simp add: two_rows_ops_def spec_step_def inserted_bytes_def inserted_len_def
        numeral_2_eq_2)
  with r show ?thesis by blast
qed

lemma check_budget_passes:
  assumes "\<not> aborted c" "\<not> over_time now c"
    and "instructions_executed (stats c) < max_instructions (budget c)"
    and "rows_returned (stats c) < max_result_rows (budget c)"
    and "bytes_used (allocator c) \<le> memory_limit (allocator c)"
  shows "check_budget now c = Inr (c\<lparr>stats := (stats c)\<lparr>memory_used := bytes_used (allocator c)\<rparr>\<rparr>)"
  using assms
  by (simp add: check_budget_def check_time_def check_instructions_def check_rows_def
      check_memory_def would_exceed_def Let_def not_le [symmetric])

text \<open>
  A world in which no budget is near: the clock stands still, no row has been counted as
  returned, memory is unused, and \<open>n\<close> instructions have been recorded.
\<close>

definition steady :: "World \<Rightarrow> u64 \<Rightarrow> bool" where
  "steady w n =
     (ex_clock w = (\<lambda>k. 0) \<and> budget (ex_ctx w) = budget small_budget_ctx \<and>
      allocator (ex_ctx w) = allocator small_budget_ctx \<and> started (ex_ctx w) \<and>
      \<not> aborted (ex_ctx w) \<and> start_time (ex_ctx w) = 0 \<and> violation (ex_ctx w) = NONE \<and>
      rows_returned (stats (ex_ctx w)) = 0 \<and> instructions_executed (stats (ex_ctx w)) = n)"

lemma steady_record: "steady w n \<Longrightarrow> steady (on_ctx (record_instructions k) w) (n + k)"
  by (simp add: steady_def record_instructions_def on_ctx_def)

lemma steady_scanned: "steady w n \<Longrightarrow> steady (on_ctx record_row_scanned w) n"
  by (simp add: steady_def record_row_scanned_def on_ctx_def)

lemma steady_pages: "steady w n \<Longrightarrow> steady (w\<lparr>ex_pages := p\<rparr>) n"
  by (simp add: steady_def)

lemma steady_check:
  assumes s: "steady w n" and n: "n < 1000"
  shows "\<exists>w'. ctx_check_budget w = Done w' \<and> steady w' n \<and> ex_pages w' = ex_pages w"
proof -
  let ?c = "ex_ctx w"
  have "check_budget (clock_now w) ?c =
        Inr (?c\<lparr>stats := (stats ?c)\<lparr>memory_used := bytes_used (allocator ?c)\<rparr>\<rparr>)"
    using s n
    by (intro check_budget_passes)
      (simp_all add: steady_def small_budget_ctx_def over_time_def clock_now_def)
  then show ?thesis
    using s by (simp add: ctx_check_budget_def steady_def clock_read_def)
qed

text \<open>
  Claim C1.  \<open>rows_returned\<close> is counted by the Limit operator only, so \<open>check_rows\<close>
  never fires for a plan without one: the scan of a table of two records under a budget of
  \<open>max_result_rows = 1\<close> succeeds and returns two rows.
\<close>

theorem execute_exceeds_max_result_rows:
  "\<forall>std_sort. \<exists>res w.
     execute std_sort scan_plan scan_world = Done (res, w) \<and>
     success res \<and> error res = [] \<and> length (rows res) = 2 \<and>
     max_result_rows (budget (ex_ctx scan_world)) = 1 \<and>
     violation (ex_ctx w) = NONE \<and> rows_returned (result_stats res) = 0"
proof
  fix std_sort :: sorter
  from two_rows_page obtain page
    where r: "run_ops (page_init 0 FLAG_LEAF) two_rows_ops = Inr page"
      and R: "page_rel page [Some [1], Some [2]] 2"
    by blast
  have pool: "two_rows_pool = pool_insert (1, 0) page True (new_PageManager 4 [])"
    by (simp add: two_rows_pool_def r)
  have pa: "page_at two_rows_pool (1, 0) = Some page"
    by (simp add: pool pool_insert_def lru_push_front_def page_at_def new_PageManager_def)
  from get_page_resident [OF pa] obtain pmA
    where g0: "get_page two_rows_pool 1 0 = Some (Some (1, 0), pmA)"
      and bA: "buffer_pool pmA = buffer_pool two_rows_pool"
      and mA: "max_pages pmA = max_pages two_rows_pool" and fA: "files pmA = files two_rows_pool"
    by blast
  have paA: "page_at pmA (1, 0) = Some page" using pa page_at_cong [OF bA] by simp
  have g1: "get_page pmA 1 (0 + 1) = Some (None, pmA)"
    by (rule get_page_absent)
      (simp_all add: bA mA fA pool pool_insert_def lru_push_front_def new_PageManager_def)
  have sc: "slot_count page = 2"
    using page_rel_bounds(2) [OF R] by (simp add: word_unat_eq_iff)
  define sch where "sch = get_table_by_id scan_catalog 1"
  define wS where "wS = clock_read (on_ctx (start (clock_now scan_world)) scan_world)"
  define st0 where "st0 = \<lparr>current_page = 0, current_slot = 0, page_ptr = Some (1, 0)\<rparr>"
  define w1 where "w1 = on_ctx (record_instructions 10) (wS\<lparr>ex_pages := pmA\<rparr>)"
  define nxt where "nxt = op_next std_sort (TableScanOperator 1 ''t'' sch :: unit Operator)"
  have bo: "build_operator (ex_catalog wS) scan_plan = Some (TableScanOperator 1 ''t'' sch)"
    by (simp add: wS_def scan_plan_def sch_def scan_world_def clock_read_def on_ctx_def)
  have op: "op_open (TableScanOperator 1 ''t'' sch) wS = Done (ScanSt st0, w1)"
    using g0 by (simp add: scan_open_def wS_def scan_world_def clock_read_def on_ctx_def
        st0_def w1_def)
  have s0: "steady wS 0"
    by (simp add: steady_def wS_def scan_world_def clock_read_def on_ctx_def start_def
        small_budget_ctx_def clock_now_def)
  have s1: "steady w1 10" and p1: "ex_pages w1 = pmA"
    using steady_record [OF steady_pages [OF s0, of pmA], of 10] by (simp_all add: w1_def)
  define w1a where
    "w1a = on_ctx (record_instructions 5) (on_ctx record_row_scanned (on_ctx (record_instructions 1) w1))"
  define st1 where "st1 = st0\<lparr>current_slot := 1\<rparr>"
  define st2 where "st2 = st0\<lparr>current_slot := 2\<rparr>"
  have n1: "nxt (ScanSt st0) w1 = Done (Some (null_row sch), ScanSt st1, w1a)"
    using scan_next_row [of st0 "(1, 0)" w1 page "[Some [1], Some [2]]" 2 "[1]" 1 sch] paA R
    by (simp add: nxt_def map_state_def st0_def st1_def p1 w1a_def)
  have "steady w1a 16" and p1a: "ex_pages w1a = pmA"
    using steady_record [OF steady_scanned [OF steady_record [OF s1, of 1]], of 5]
    by (simp_all add: w1a_def p1)
  from steady_check [OF this(1)] p1a obtain w2
    where k1: "ctx_check_budget w1a = Done w2" and s2: "steady w2 16" and p2: "ex_pages w2 = pmA"
    by auto
  define w2a where
    "w2a = on_ctx (record_instructions 5) (on_ctx record_row_scanned (on_ctx (record_instructions 1) w2))"
  have n2: "nxt (ScanSt st1) w2 = Done (Some (null_row sch), ScanSt st2, w2a)"
    using scan_next_row [of st1 "(1, 0)" w2 page "[Some [1], Some [2]]" 2 "[2]" 1 sch] paA R
    by (simp add: nxt_def map_state_def st1_def st2_def st0_def p2 w2a_def)
  have "steady w2a 22" and p2a: "ex_pages w2a = pmA"
    using steady_record [OF steady_scanned [OF steady_record [OF s2, of 1]], of 5]
    by (simp_all add: w2a_def p2)
  from steady_check [OF this(1)] p2a obtain w3
    where k2: "ctx_check_budget w2a = Done w3" and s3: "steady w3 22" and p3: "ex_pages w3 = pmA"
    by auto
  define w4 where
    "w4 = on_ctx (record_instructions 10) ((on_ctx (record_instructions 1) w3)\<lparr>ex_pages := pmA\<rparr>)"
  have "\<exists>st3. nxt (ScanSt st2) w3 = Done (None, ScanSt st3, w4)"
    using scan_next_end [of st2 "(1, 0)" w3 page 1 pmA sch] paA g1
    by (simp add: nxt_def map_state_def st2_def st0_def p3 w4_def sc)
  then obtain st3 where n3: "nxt (ScanSt st2) w3 = Done (None, ScanSt st3, w4)"
    by blast
  have s4: "steady w4 33"
    using steady_record [OF steady_pages [OF steady_record [OF s3, of 1], of pmA], of 10]
    by (simp add: w4_def)
  have l3: "select_loop nxt (ScanSt st2) w3 acc = Some (Done (acc, w4))" for acc
    by (subst select_loop.simps) (simp add: n3)
  have l2: "select_loop nxt (ScanSt st1) w2 acc = Some (Done (acc @ [null_row sch], w4))" for acc
    by (subst select_loop.simps) (simp add: n2 k2 l3)
  have loop: "select_loop nxt (ScanSt st0) w1 [] = Some (Done ([null_row sch, null_row sch], w4))"
    by (subst select_loop.simps) (simp add: n1 k1 l2)
  have sel: "execute_select std_sort scan_plan wS =
     Done (new_ExecutionResult\<lparr>column_names := the (op_column_names (TableScanOperator 1 ''t'' sch :: unit Operator)),
             rows := [null_row sch, null_row sch], success := True\<rparr>, w4)"
    using bo op loop by (simp add: execute_select_def nxt_def [symmetric])
  have "execute std_sort scan_plan scan_world =
     Done (finish (new_ExecutionResult\<lparr>column_names := the (op_column_names (TableScanOperator 1 ''t'' sch :: unit Operator)),
             rows := [null_row sch, null_row sch], success := True\<rparr>) w4)"
    using sel by (simp add: execute_def dispatch_def scan_plan_def wS_def [symmetric] Let_def)
  moreover have "max_result_rows (budget (ex_ctx scan_world)) = 1"
    by (simp add: scan_world_def small_budget_ctx_def)
  ultimately show "\<exists>res w.
     execute std_sort scan_plan scan_world = Done (res, w) \<and>
     success res \<and> error res = [] \<and> length (rows res) = 2 \<and>
     max_result_rows (budget (ex_ctx scan_world)) = 1 \<and>
     violation (ex_ctx w) = NONE \<and> rows_returned (result_stats res) = 0"
    using s4
    by (simp add: finish_def Let_def new_ExecutionResult_def steady_def finalize_def)
qed

section \<open>Executor: INSERT\<close>

definition insert_world :: World where
  "insert_world =
     \<lparr>ex_ctx = small_budget_ctx, ex_pages = new_PageManager 4 [], ex_catalog = scan_catalog,
      ex_clock = (\<lambda>n. 0), ex_reads = 0\<rparr>"

definition insert_plan :: "unit list list \<Rightarrow> unit PlanNode" where
  "insert_plan vals = PlanNode INSERT (InsertNode 1 ''t'' [''a''] vals)"

definition keep_order :: sorter where
  "keep_order cmp xs = xs"

lemma scan_catalog_table:
  "get_table scan_catalog ''t'' =
     Some \<lparr>tbl_id = 1, tbl_name = ''t'',
           columns = [\<lparr>col_name = ''a'', col_type = CT_INTEGER, col_not_null = False,
                       col_primary_key = False, col_index = 0\<rparr>],
           row_count = 0\<rparr>"
  by (simp add: get_table_def scan_catalog_def create_table_def new_Catalog_def Let_def)

lemma execute_insert_run:
  assumes "get_table (ex_catalog w) name = Some tbl"
  shows "execute std_sort (PlanNode INSERT (InsertNode tid name cols vals)) w =
         Done (finish (new_ExecutionResult\<lparr>rows_affected := of_nat (length vals), success := True\<rparr>)
                 (on_ctx (record_instructions (of_nat (length vals) * 20))
                    (clock_read (on_ctx (start (clock_now w)) w))))"
  using assms
  by (simp add: execute_def dispatch_def execute_insert_def Let_def clock_read_def on_ctx_def)

text \<open>
  Claim C2, as the code has it.  \<open>execute_insert\<close> looks the table up and counts the rows:
  for a table the catalog knows, the execution succeeds with \<open>rows_affected = n\<close> and no
  rows, records \<open>20 n\<close> instructions, and leaves the buffer pool and the catalog as they
  were.  The executor holds no log: no WAL record is written and no page is touched.
\<close>

theorem execute_insert_counts:
  assumes "get_table (ex_catalog w) name = Some tbl"
  shows "\<exists>res w'.
     execute std_sort (PlanNode INSERT (InsertNode tid name cols vals)) w = Done (res, w') \<and>
     success res \<and> rows_affected res = of_nat (length vals) \<and> rows res = [] \<and>
     ex_pages w' = ex_pages w \<and> ex_catalog w' = ex_catalog w \<and>
     instructions_executed (stats (ex_ctx w')) =
       instructions_executed (stats (ex_ctx w)) + of_nat (length vals) * 20"
  by (simp add: execute_insert_run [OF assms] finish_def Let_def new_ExecutionResult_def
      clock_read_def on_ctx_def finalize_def start_def record_instructions_def)

theorem execute_insert_counts_witness:
  "get_table (ex_catalog insert_world) ''t'' \<noteq> None \<and>
   (\<exists>res w'.
      execute keep_order (insert_plan [[()], [()]]) insert_world = Done (res, w') \<and>
      success res \<and> rows_affected res = 2 \<and> rows res = [] \<and>
      ex_pages w' = new_PageManager 4 [] \<and> ex_catalog w' = scan_catalog \<and>
      instructions_executed (stats (ex_ctx w')) = 40)"
  using execute_insert_counts [of insert_world "''t''" "the (get_table scan_catalog ''t'')"
      keep_order 1 "[''a'']" "[[()], [()]]"]
  by (simp add: insert_world_def insert_plan_def scan_catalog_table small_budget_ctx_def)

text \<open>
  The INSERT of one row into the table of an empty pool: one row is reported as affected,
  and the pool still holds no page, so no record reached a page.
\<close>

theorem execute_insert_counterexample:
  "\<exists>res w'.
     execute keep_order (insert_plan [[()]]) insert_world = Done (res, w') \<and>
     success res \<and> rows_affected res = 1 \<and>
     ex_pages w' = ex_pages insert_world \<and>
     page_count (ex_pages w') = 0 \<and> dirty_count (ex_pages w') = 0 \<and>
     files (ex_pages w') = []"
proof -
  have g: "get_table (ex_catalog insert_world) ''t'' = Some (the (get_table scan_catalog ''t''))"
    by (simp add: insert_world_def scan_catalog_table)
  show ?thesis
    unfolding insert_plan_def
    by (subst execute_insert_run [OF g])
      (simp add: finish_def Let_def new_ExecutionResult_def insert_world_def page_count_def
        dirty_count_def new_PageManager_def clock_read_def on_ctx_def)
qed

section \<open>Executor: Sort\<close>



text \<open>
  The order of the comparator, in words: the integer a row holds in a column (if it holds
  one), and the lexicographic comparison of the keys on which both rows hold integers.
\<close>

definition int_key :: "ResultRow \<Rightarrow> nat \<Rightarrow> int option" where
  "int_key a col =
     (if col < length (row_values a)
      then (case row_values a ! col of INTEGER x \<Rightarrow> Some x | _ \<Rightarrow> None)
      else None)"







subsection \<open>The comparator\<close>



subsection \<open>Materialising and streaming\<close>






subsection \<open>What the Sort operator delivers\<close>

definition int_row :: "int \<Rightarrow> ResultRow" where
  "int_row x = \<lparr>row_values = [INTEGER x]\<rparr>"

definition null_value_row :: ResultRow where
  "null_value_row = \<lparr>row_values = [NULL_VAL]\<rparr>"

definition string_row :: "string \<Rightarrow> ResultRow" where
  "string_row x = \<lparr>row_values = [STRING x]\<rparr>"


lemma one_key_values [simp]:
  "int_key (int_row x) 0 = Some x" "int_key null_value_row 0 = None"
  "int_key (string_row s) 0 = None"
  by (simp_all add: int_key_def int_row_def null_value_row_def string_row_def)









end
